theory Spec2Isabelle
  imports Main "HOL-Library.Word"
begin

section \<open>Outcomes of a call\<close>

text \<open>
  Every \<^verbatim>\<open>throw\<close> of the engine raises a \<^verbatim>\<open>std::runtime_error\<close>, and the
  standard conversions \<^verbatim>\<open>std::stoi\<close>, \<^verbatim>\<open>std::stoll\<close> and \<^verbatim>\<open>std::stod\<close> raise
  \<^verbatim>\<open>std::out_of_range\<close>; both derive from \<^verbatim>\<open>std::exception\<close>, and an exception is
  modelled by its \<^verbatim>\<open>what()\<close> text. Reading \<^verbatim>\<open>tokens_[i]\<close> with \<^verbatim>\<open>i\<close> past the end of
  the vector has no defined behaviour in C++: it is an outcome of its own, which no
  handler catches.
\<close>

datatype failure = Exception string | UndefinedBehaviour

type_synonym 'a result = "failure + 'a"

section \<open>Tokens (lexer.h)\<close>

datatype TokenType =
    INTEGER_LITERAL | REAL_LITERAL | STRING_LITERAL | BOOLEAN_LITERAL | NULL_LITERAL
  | IDENTIFIER
  | SELECT | FROM | WHERE | INSERT | INTO | VALUES | CREATE | TABLE | DROP | UPDATE | SET
  | DELETE | AND | OR | NOT | TRUE | FALSE | NULL_KW | AS | ORDER | BY | ASC | DESC | LIMIT
  | INTEGER_TYPE | REAL_TYPE | TEXT_TYPE | BOOLEAN_TYPE
  | EQUAL | NOT_EQUAL | LESS_THAN | LESS_EQUAL | GREATER_THAN | GREATER_EQUAL
  | PLUS | MINUS | MULTIPLY | DIVIDE
  | LEFT_PAREN | RIGHT_PAREN | COMMA | SEMICOLON | DOT
  | EOF_TOKEN | INVALID

text \<open>The fields \<^verbatim>\<open>type\<close>, \<^verbatim>\<open>value\<close>, \<^verbatim>\<open>position\<close>, \<^verbatim>\<open>line\<close> and \<^verbatim>\<open>column\<close> of
  \<^verbatim>\<open>struct Token\<close>.\<close>

record Token =
  tok_type :: TokenType
  tok_value :: string
  tok_position :: nat
  tok_line :: nat
  tok_column :: nat

section \<open>Lexer (lexer.cpp)\<close>

record Lexer =
  input :: string
  position :: nat
  line :: nat
  column :: nat

definition keyword_table :: "(string \<times> TokenType) list" where
  "keyword_table =
    [(''SELECT'', SELECT), (''FROM'', FROM), (''WHERE'', WHERE), (''INSERT'', INSERT),
     (''INTO'', INTO), (''VALUES'', VALUES), (''CREATE'', CREATE), (''TABLE'', TABLE),
     (''DROP'', DROP), (''UPDATE'', UPDATE), (''SET'', SET), (''DELETE'', DELETE),
     (''AND'', AND), (''OR'', OR), (''NOT'', NOT), (''TRUE'', TRUE), (''FALSE'', FALSE),
     (''NULL'', NULL_KW), (''AS'', AS), (''ORDER'', ORDER), (''BY'', BY), (''ASC'', ASC),
     (''DESC'', DESC), (''LIMIT'', LIMIT), (''INTEGER'', INTEGER_TYPE),
     (''REAL'', REAL_TYPE), (''TEXT'', TEXT_TYPE), (''BOOLEAN'', BOOLEAN_TYPE)]"

definition new_Lexer :: "string \<Rightarrow> Lexer" where
  "new_Lexer s = \<lparr>input = s, position = 0, line = 1, column = 1\<rparr>"

definition hasNext :: "Lexer \<Rightarrow> bool" where
  "hasNext lx \<longleftrightarrow> position lx < length (input lx)"

definition isDigit :: "char \<Rightarrow> bool" where
  "isDigit c \<longleftrightarrow> (of_char (CHR ''0'') :: nat) \<le> of_char c \<and> (of_char c :: nat) \<le> of_char (CHR ''9'')"

definition isAlpha :: "char \<Rightarrow> bool" where
  "isAlpha c \<longleftrightarrow>
     ((of_char (CHR ''a'') :: nat) \<le> of_char c \<and> (of_char c :: nat) \<le> of_char (CHR ''z''))
   \<or> ((of_char (CHR ''A'') :: nat) \<le> of_char c \<and> (of_char c :: nat) \<le> of_char (CHR ''Z''))
   \<or> c = CHR ''_''"

definition isAlphaNumeric :: "char \<Rightarrow> bool" where
  "isAlphaNumeric c \<longleftrightarrow> isAlpha c \<or> isDigit c"

text \<open>\<^verbatim>\<open>std::isspace\<close> in the "C" locale: space, \<^verbatim>\<open>\t\<close>, \<^verbatim>\<open>\n\<close>, \<^verbatim>\<open>\v\<close>, \<^verbatim>\<open>\f\<close>, \<^verbatim>\<open>\r\<close>.\<close>

definition isspace :: "char \<Rightarrow> bool" where
  "isspace c \<longleftrightarrow> c \<in> set [CHR 0x20, CHR 0x09, CHR 0x0A, CHR 0x0B, CHR 0x0C, CHR 0x0D]"

text \<open>\<^verbatim>\<open>::toupper\<close> in the "C" locale; it is applied only to the characters of an
  identifier.\<close>

definition toupper :: "char \<Rightarrow> char" where
  "toupper c =
     (if (of_char (CHR ''a'') :: nat) \<le> of_char c \<and> (of_char c :: nat) \<le> of_char (CHR ''z'')
      then char_of (of_char c - (32 :: nat)) else c)"

definition Lexer_peek :: "Lexer \<Rightarrow> char" where
  "Lexer_peek lx =
     (if position lx \<ge> length (input lx) then CHR 0x00 else input lx ! position lx)"

definition Lexer_advance :: "Lexer \<Rightarrow> char \<times> Lexer" where
  "Lexer_advance lx =
     (if position lx \<ge> length (input lx) then (CHR 0x00, lx)
      else (input lx ! position lx,
            lx\<lparr>position := position lx + 1, column := column lx + 1\<rparr>))"

definition makeToken :: "Lexer \<Rightarrow> TokenType \<Rightarrow> string \<Rightarrow> Token" where
  "makeToken lx ty v =
     \<lparr>tok_type = ty, tok_value = v, tok_position = position lx, tok_line = line lx,
      tok_column = column lx\<rparr>"

function skipWhitespace :: "Lexer \<Rightarrow> Lexer" where
  "skipWhitespace lx =
     (if hasNext lx \<and> isspace (Lexer_peek lx)
      then skipWhitespace
             (if Lexer_peek lx = CHR 0x0A
              then lx\<lparr>line := line lx + 1, column := 1, position := position lx + 1\<rparr>
              else lx\<lparr>column := column lx + 1, position := position lx + 1\<rparr>)
      else lx)"
  by pat_completeness auto
termination
  by (relation "measure (\<lambda>lx. length (input lx) - position lx)") (auto simp: hasNext_def)

function skipComment :: "Lexer \<Rightarrow> Lexer" where
  "skipComment lx =
     (if hasNext lx \<and> Lexer_peek lx \<noteq> CHR 0x0A
      then skipComment (snd (Lexer_advance lx))
      else lx)"
  by pat_completeness auto
termination
  by (relation "measure (\<lambda>lx. length (input lx) - position lx)")
     (auto simp: hasNext_def Lexer_advance_def)

text \<open>The \<^verbatim>\<open>switch (escaped)\<close> of \<^verbatim>\<open>readString\<close>.\<close>

definition unescape :: "char \<Rightarrow> char" where
  "unescape escaped =
     (if escaped = CHR ''n'' then CHR 0x0A
      else if escaped = CHR ''t'' then CHR 0x09
      else if escaped = CHR ''r'' then CHR 0x0D
      else if escaped = CHR 0x5C then CHR 0x5C
      else if escaped = CHR 0x27 then CHR 0x27
      else if escaped = CHR 0x22 then CHR 0x22
      else escaped)"

function readString_loop :: "char \<Rightarrow> Lexer \<Rightarrow> string \<Rightarrow> string \<times> Lexer" where
  "readString_loop quote lx v =
     (if hasNext lx \<and> Lexer_peek lx \<noteq> quote
      then (case Lexer_advance lx of (c, lx1) \<Rightarrow>
              if c = CHR 0x5C \<and> hasNext lx1
              then (case Lexer_advance lx1 of (escaped, lx2) \<Rightarrow>
                      readString_loop quote lx2 (v @ [unescape escaped]))
              else readString_loop quote lx1 (v @ [c]))
      else (v, lx))"
  by pat_completeness auto
termination
  by (relation "measure (\<lambda>(quote, lx, v). length (input lx) - position lx)")
     (auto simp: hasNext_def Lexer_advance_def split: if_splits)

definition readString :: "Lexer \<Rightarrow> Token \<times> Lexer" where
  "readString lx =
     (case Lexer_advance lx of (quote, lx1) \<Rightarrow>
        (case readString_loop quote lx1 [] of (v, lx2) \<Rightarrow>
           let lx3 = (if hasNext lx2 \<and> Lexer_peek lx2 = quote then snd (Lexer_advance lx2) else lx2)
           in (makeToken lx3 STRING_LITERAL v, lx3)))"

function readNumber_loop :: "Lexer \<Rightarrow> string \<Rightarrow> bool \<Rightarrow> string \<times> bool \<times> Lexer" where
  "readNumber_loop lx v hasDecimal =
     (if hasNext lx \<and> (isDigit (Lexer_peek lx) \<or> (\<not> hasDecimal \<and> Lexer_peek lx = CHR ''.''))
      then (let hasDecimal' = (if Lexer_peek lx = CHR ''.'' then True else hasDecimal)
            in case Lexer_advance lx of (c, lx1) \<Rightarrow> readNumber_loop lx1 (v @ [c]) hasDecimal')
      else (v, hasDecimal, lx))"
  by pat_completeness auto
termination
  by (relation "measure (\<lambda>(lx, v, d). length (input lx) - position lx)")
     (auto simp: hasNext_def Lexer_advance_def split: if_splits)

definition readNumber :: "Lexer \<Rightarrow> Token \<times> Lexer" where
  "readNumber lx =
     (case readNumber_loop lx [] False of (v, hasDecimal, lx1) \<Rightarrow>
        (makeToken lx1 (if hasDecimal then REAL_LITERAL else INTEGER_LITERAL) v, lx1))"

function readIdentifier_loop :: "Lexer \<Rightarrow> string \<Rightarrow> string \<times> Lexer" where
  "readIdentifier_loop lx v =
     (if hasNext lx \<and> isAlphaNumeric (Lexer_peek lx)
      then (case Lexer_advance lx of (c, lx1) \<Rightarrow> readIdentifier_loop lx1 (v @ [c]))
      else (v, lx))"
  by pat_completeness auto
termination
  by (relation "measure (\<lambda>(lx, v). length (input lx) - position lx)")
     (auto simp: hasNext_def Lexer_advance_def split: if_splits)

definition readIdentifier :: "Lexer \<Rightarrow> Token \<times> Lexer" where
  "readIdentifier lx =
     (case readIdentifier_loop lx [] of (v, lx1) \<Rightarrow>
        (case map_of keyword_table (map toupper v) of
           Some ty \<Rightarrow> (makeToken lx1 ty v, lx1)
         | None \<Rightarrow> (makeToken lx1 IDENTIFIER v, lx1)))"


text \<open>The \<^verbatim>\<open>switch (c)\<close> of \<^verbatim>\<open>nextToken\<close>: every case starts with \<^verbatim>\<open>advance()\<close>.\<close>

definition nextToken_switch :: "Lexer \<Rightarrow> char \<Rightarrow> Token \<times> Lexer" where
  "nextToken_switch lx c =
     (let lx1 = snd (Lexer_advance lx) in
      if c = CHR ''('' then (makeToken lx1 LEFT_PAREN ''('', lx1)
      else if c = CHR '')'' then (makeToken lx1 RIGHT_PAREN '')'', lx1)
      else if c = CHR '','' then (makeToken lx1 COMMA '','', lx1)
      else if c = CHR '';'' then (makeToken lx1 SEMICOLON '';'', lx1)
      else if c = CHR ''.'' then (makeToken lx1 DOT ''.'', lx1)
      else if c = CHR ''+'' then (makeToken lx1 PLUS ''+'', lx1)
      else if c = CHR ''-'' then (makeToken lx1 MINUS ''-'', lx1)
      else if c = CHR ''*'' then (makeToken lx1 MULTIPLY ''*'', lx1)
      else if c = CHR ''/'' then (makeToken lx1 DIVIDE ''/'', lx1)
      else if c = CHR ''='' then (makeToken lx1 EQUAL ''='', lx1)
      else if c = CHR ''<'' then
        (if hasNext lx1 \<and> Lexer_peek lx1 = CHR ''=''
         then (let lx2 = snd (Lexer_advance lx1) in (makeToken lx2 LESS_EQUAL ''<='', lx2))
         else if hasNext lx1 \<and> Lexer_peek lx1 = CHR ''>''
         then (let lx2 = snd (Lexer_advance lx1) in (makeToken lx2 NOT_EQUAL ''<>'', lx2))
         else (makeToken lx1 LESS_THAN ''<'', lx1))
      else if c = CHR ''>'' then
        (if hasNext lx1 \<and> Lexer_peek lx1 = CHR ''=''
         then (let lx2 = snd (Lexer_advance lx1) in (makeToken lx2 GREATER_EQUAL ''>='', lx2))
         else (makeToken lx1 GREATER_THAN ''>'', lx1))
      else if c = CHR ''!'' then
        (if hasNext lx1 \<and> Lexer_peek lx1 = CHR ''=''
         then (let lx2 = snd (Lexer_advance lx1) in (makeToken lx2 NOT_EQUAL ''!='', lx2))
         else (makeToken lx1 INVALID ''!'', lx1))
      else (makeToken lx1 INVALID [c], lx1))"

declare skipWhitespace.simps [simp del] skipComment.simps [simp del]
  readString_loop.simps [simp del] readNumber_loop.simps [simp del]
  readIdentifier_loop.simps [simp del]

lemma Lexer_advance_frame:
  "input (snd (Lexer_advance lx)) = input lx \<and> position lx \<le> position (snd (Lexer_advance lx))"
  by (simp add: Lexer_advance_def)

lemma Lexer_advance_step:
  "hasNext lx \<Longrightarrow> position (snd (Lexer_advance lx)) = position lx + 1"
  by (simp add: Lexer_advance_def hasNext_def)

lemma skipWhitespace_frame:
  "input (skipWhitespace lx) = input lx \<and> position lx \<le> position (skipWhitespace lx)"
proof (induction lx rule: skipWhitespace.induct)
  case (1 lx)
  show ?case
  proof (cases "hasNext lx \<and> isspace (Lexer_peek lx)")
    case True
    let ?lx1 = "if Lexer_peek lx = CHR 0x0A
              then lx\<lparr>line := line lx + 1, column := 1, position := position lx + 1\<rparr>
              else lx\<lparr>column := column lx + 1, position := position lx + 1\<rparr>"
    have eq: "skipWhitespace lx = skipWhitespace ?lx1"
      by (subst skipWhitespace.simps) (rule if_P [OF True])
    have ih: "input (skipWhitespace ?lx1) = input ?lx1 \<and> position ?lx1 \<le> position (skipWhitespace ?lx1)"
      by (rule 1 [OF True])
    have a: "input ?lx1 = input lx" by simp
    have b: "position lx \<le> position ?lx1" by simp
    show ?thesis
      unfolding eq
    proof (intro conjI)
      show "input (skipWhitespace ?lx1) = input lx" by (rule trans [OF conjunct1 [OF ih] a])
      show "position lx \<le> position (skipWhitespace ?lx1)"
        by (rule order_trans [OF b conjunct2 [OF ih]])
    qed
  next
    case False
    have "skipWhitespace lx = lx" by (subst skipWhitespace.simps) (rule if_not_P [OF False])
    then show ?thesis by simp
  qed
qed

lemma skipComment_frame:
  "input (skipComment lx) = input lx \<and> position lx \<le> position (skipComment lx)"
proof (induction lx rule: skipComment.induct)
  case (1 lx)
  show ?case
  proof (cases "hasNext lx \<and> Lexer_peek lx \<noteq> CHR 0x0A")
    case True
    let ?lx1 = "snd (Lexer_advance lx)"
    have eq: "skipComment lx = skipComment ?lx1"
      by (subst skipComment.simps) (rule if_P [OF True])
    have ih: "input (skipComment ?lx1) = input ?lx1 \<and> position ?lx1 \<le> position (skipComment ?lx1)"
      by (rule 1 [OF True])
    note adv = Lexer_advance_frame [of lx]
    show ?thesis
      unfolding eq
    proof (intro conjI)
      show "input (skipComment ?lx1) = input lx"
        by (rule trans [OF conjunct1 [OF ih] conjunct1 [OF adv]])
      show "position lx \<le> position (skipComment ?lx1)"
        by (rule order_trans [OF conjunct2 [OF adv] conjunct2 [OF ih]])
    qed
  next
    case False
    have "skipComment lx = lx" by (subst skipComment.simps) (rule if_not_P [OF False])
    then show ?thesis by simp
  qed
qed

lemma skipComment_step:
  assumes "hasNext lx" and "Lexer_peek lx \<noteq> CHR 0x0A"
  shows "position lx < position (skipComment lx)"
proof -
  let ?lx1 = "snd (Lexer_advance lx)"
  have c: "hasNext lx \<and> Lexer_peek lx \<noteq> CHR 0x0A" using assms by simp
  have eq: "skipComment lx = skipComment ?lx1"
    by (subst skipComment.simps) (rule if_P [OF c])
  have "position ?lx1 \<le> position (skipComment ?lx1)"
    by (rule conjunct2 [OF skipComment_frame])
  then show ?thesis
    unfolding eq using Lexer_advance_step [OF assms(1)] by linarith
qed

function nextToken :: "Lexer \<Rightarrow> Token \<times> Lexer" where
  "nextToken lx0 =
     (let lx = skipWhitespace lx0 in
      if \<not> hasNext lx then (makeToken lx EOF_TOKEN [], lx)
      else
        let c = Lexer_peek lx in
        if c = CHR ''-'' \<and> position lx + 1 < length (input lx)
           \<and> input lx ! (position lx + 1) = CHR ''-''
        then nextToken (skipComment lx)
        else if c = CHR 0x27 \<or> c = CHR 0x22 then readString lx
        else if isDigit c then readNumber lx
        else if isAlpha c then readIdentifier lx
        else nextToken_switch lx c)"
  by pat_completeness auto
termination
proof (relation "measure (\<lambda>lx. length (input lx) - position lx)")
  fix lx0 lx c
  assume lx: "lx = skipWhitespace lx0" and nx: "\<not> \<not> hasNext lx" and c: "c = Lexer_peek lx"
    and cm: "c = CHR ''-'' \<and> position lx + 1 < length (input lx)
           \<and> input lx ! (position lx + 1) = CHR ''-''"
  have "Lexer_peek lx \<noteq> CHR 0x0A" using c cm by auto
  then have "position lx < position (skipComment lx)"
    using skipComment_step [of lx] nx by simp
  moreover have "input (skipComment lx) = input lx"
    using skipComment_frame by blast
  moreover have "input lx = input lx0 \<and> position lx0 \<le> position lx"
    using skipWhitespace_frame lx by blast
  ultimately show "(skipComment lx, lx0) \<in> measure (\<lambda>lx. length (input lx) - position lx)"
    using nx by (auto simp: hasNext_def)
qed simp

declare nextToken.simps [simp del]


subsection \<open>The lexer only moves forward\<close>


definition lx_le :: "Lexer \<Rightarrow> Lexer \<Rightarrow> bool" where
  "lx_le lx lx' \<longleftrightarrow> input lx' = input lx \<and> position lx \<le> position lx'"

lemma lx_le_refl: "lx_le lx lx"
  by (simp add: lx_le_def)

lemma lx_le_trans: "lx_le a b \<Longrightarrow> lx_le b c \<Longrightarrow> lx_le a c"
  by (simp add: lx_le_def)

lemma Lexer_advance_le: "Lexer_advance lx = (c, lx1) \<Longrightarrow> lx_le lx lx1"
  by (auto simp: Lexer_advance_def lx_le_def split: if_splits)

lemma Lexer_advance_lt:
  "hasNext lx \<Longrightarrow> Lexer_advance lx = (c, lx1) \<Longrightarrow> position lx < position lx1"
  by (auto simp: Lexer_advance_def hasNext_def split: if_splits)

lemma readString_loop_frame: "lx_le lx (snd (readString_loop q lx v))"
proof (induction q lx v rule: readString_loop.induct)
  case (1 quote lx v)
  show ?case
  proof (cases "hasNext lx \<and> Lexer_peek lx \<noteq> quote")
    case False
    have "readString_loop quote lx v = (v, lx)"
      by (subst readString_loop.simps) (rule if_not_P [OF False])
    then show ?thesis by (simp add: lx_le_refl)
  next
    case True
    obtain c lx1 where a1: "Lexer_advance lx = (c, lx1)" by (cases "Lexer_advance lx")
    note l1 = Lexer_advance_le [OF a1]
    show ?thesis
    proof (cases "c = CHR 0x5C \<and> hasNext lx1")
      case esc: True
      obtain e lx2 where a2: "Lexer_advance lx1 = (e, lx2)" by (cases "Lexer_advance lx1")
      note l2 = Lexer_advance_le [OF a2]
      have ih: "lx_le lx2 (snd (readString_loop quote lx2 (v @ [unescape e])))"
        by (rule "1.IH"(1) [OF True a1 [symmetric] esc a2 [symmetric]])
      have eq: "readString_loop quote lx v = readString_loop quote lx2 (v @ [unescape e])"
        by (subst readString_loop.simps) (simp only: if_P [OF True] a1 prod.case if_P [OF esc] a2)
      show ?thesis unfolding eq by (rule lx_le_trans [OF l1 lx_le_trans [OF l2 ih]])
    next
      case noesc: False
      have ih: "lx_le lx1 (snd (readString_loop quote lx1 (v @ [c])))"
        by (rule "1.IH"(2) [OF True a1 [symmetric] noesc])
      have eq: "readString_loop quote lx v = readString_loop quote lx1 (v @ [c])"
        by (subst readString_loop.simps) (simp only: if_P [OF True] a1 prod.case if_not_P [OF noesc])
      show ?thesis unfolding eq by (rule lx_le_trans [OF l1 ih])
    qed
  qed
qed

lemma readNumber_loop_frame: "lx_le lx (snd (snd (readNumber_loop lx v d)))"
proof (induction lx v d rule: readNumber_loop.induct)
  case (1 lx v d)
  let ?c = "hasNext lx \<and> (isDigit (Lexer_peek lx) \<or> (\<not> d \<and> Lexer_peek lx = CHR ''.''))"
  show ?case
  proof (cases ?c)
    case False
    have "readNumber_loop lx v d = (v, d, lx)"
      by (subst readNumber_loop.simps) (rule if_not_P [OF False])
    then show ?thesis by (simp add: lx_le_refl)
  next
    case True
    obtain c lx1 where a1: "Lexer_advance lx = (c, lx1)" by (cases "Lexer_advance lx")
    note l1 = Lexer_advance_le [OF a1]
    let ?d = "if Lexer_peek lx = CHR ''.'' then True else d"
    have ih: "lx_le lx1 (snd (snd (readNumber_loop lx1 (v @ [c]) ?d)))"
      by (rule "1.IH" [OF True refl a1 [symmetric]])
    have eq: "readNumber_loop lx v d = readNumber_loop lx1 (v @ [c]) ?d"
      by (subst readNumber_loop.simps) (simp only: if_P [OF True] Let_def a1 prod.case)
    show ?thesis unfolding eq by (rule lx_le_trans [OF l1 ih])
  qed
qed

lemma readNumber_loop_step:
  assumes "hasNext lx" and "isDigit (Lexer_peek lx)"
  shows "position lx < position (snd (snd (readNumber_loop lx v d)))"
proof -
  have c: "hasNext lx \<and> (isDigit (Lexer_peek lx) \<or> (\<not> d \<and> Lexer_peek lx = CHR ''.''))"
    using assms by simp
  obtain c lx1 where a1: "Lexer_advance lx = (c, lx1)" by (cases "Lexer_advance lx")
  let ?d = "if Lexer_peek lx = CHR ''.'' then True else d"
  have eq: "readNumber_loop lx v d = readNumber_loop lx1 (v @ [c]) ?d"
    by (subst readNumber_loop.simps) (simp only: if_P [OF c] Let_def a1 prod.case)
  have "position lx1 \<le> position (snd (snd (readNumber_loop lx1 (v @ [c]) ?d)))"
    using readNumber_loop_frame [of lx1] by (simp add: lx_le_def)
  then show ?thesis
    unfolding eq using Lexer_advance_lt [OF assms(1) a1] by linarith
qed

lemma readIdentifier_loop_frame: "lx_le lx (snd (readIdentifier_loop lx v))"
proof (induction lx v rule: readIdentifier_loop.induct)
  case (1 lx v)
  show ?case
  proof (cases "hasNext lx \<and> isAlphaNumeric (Lexer_peek lx)")
    case False
    have "readIdentifier_loop lx v = (v, lx)"
      by (subst readIdentifier_loop.simps) (rule if_not_P [OF False])
    then show ?thesis by (simp add: lx_le_refl)
  next
    case True
    obtain c lx1 where a1: "Lexer_advance lx = (c, lx1)" by (cases "Lexer_advance lx")
    note l1 = Lexer_advance_le [OF a1]
    have ih: "lx_le lx1 (snd (readIdentifier_loop lx1 (v @ [c])))"
      by (rule "1.IH" [OF True a1 [symmetric]])
    have eq: "readIdentifier_loop lx v = readIdentifier_loop lx1 (v @ [c])"
      by (subst readIdentifier_loop.simps) (simp only: if_P [OF True] a1 prod.case)
    show ?thesis unfolding eq by (rule lx_le_trans [OF l1 ih])
  qed
qed

lemma readIdentifier_loop_step:
  assumes "hasNext lx" and "isAlpha (Lexer_peek lx)"
  shows "position lx < position (snd (readIdentifier_loop lx v))"
proof -
  have c: "hasNext lx \<and> isAlphaNumeric (Lexer_peek lx)"
    using assms by (simp add: isAlphaNumeric_def)
  obtain c lx1 where a1: "Lexer_advance lx = (c, lx1)" by (cases "Lexer_advance lx")
  have eq: "readIdentifier_loop lx v = readIdentifier_loop lx1 (v @ [c])"
    by (subst readIdentifier_loop.simps) (simp only: if_P [OF c] a1 prod.case)
  have "position lx1 \<le> position (snd (readIdentifier_loop lx1 (v @ [c])))"
    using readIdentifier_loop_frame [of lx1] by (simp add: lx_le_def)
  then show ?thesis
    unfolding eq using Lexer_advance_lt [OF assms(1) a1] by linarith
qed

lemma readString_frame:
  "hasNext lx \<Longrightarrow> input (snd (readString lx)) = input lx \<and> position lx < position (snd (readString lx))"
proof -
  assume h: "hasNext lx"
  obtain q lx1 where a1: "Lexer_advance lx = (q, lx1)" by (cases "Lexer_advance lx")
  obtain v lx2 where a2: "readString_loop q lx1 [] = (v, lx2)" by (cases "readString_loop q lx1 []")
  have l2: "lx_le lx1 lx2" using readString_loop_frame [of lx1 q "[]"] a2 by simp
  let ?lx3 = "if hasNext lx2 \<and> Lexer_peek lx2 = q then snd (Lexer_advance lx2) else lx2"
  have l3: "lx_le lx2 ?lx3" 
    using Lexer_advance_le [of lx2] by (cases "Lexer_advance lx2") (auto simp: lx_le_refl)
  have eq: "snd (readString lx) = ?lx3"
    by (simp add: readString_def a1 a2 Let_def)
  have "lx_le lx1 ?lx3" by (rule lx_le_trans [OF l2 l3])
  then show ?thesis
    unfolding eq using Lexer_advance_lt [OF h a1] Lexer_advance_le [OF a1]
    by (simp add: lx_le_def)
qed

lemma readNumber_frame:
  "hasNext lx \<Longrightarrow> isDigit (Lexer_peek lx) \<Longrightarrow>
   input (snd (readNumber lx)) = input lx \<and> position lx < position (snd (readNumber lx))"
  using readNumber_loop_frame [of lx "[]" False] readNumber_loop_step [of lx "[]" False]
  by (auto simp: readNumber_def lx_le_def split: prod.splits)

lemma readIdentifier_frame:
  "hasNext lx \<Longrightarrow> isAlpha (Lexer_peek lx) \<Longrightarrow>
   input (snd (readIdentifier lx)) = input lx \<and> position lx < position (snd (readIdentifier lx))"
  using readIdentifier_loop_frame [of lx "[]"] readIdentifier_loop_step [of lx "[]"]
  by (auto simp: readIdentifier_def lx_le_def split: prod.splits option.splits)

lemma nextToken_switch_frame:
  "hasNext lx \<Longrightarrow> input (snd (nextToken_switch lx c)) = input lx
     \<and> position lx < position (snd (nextToken_switch lx c))"
proof -
  assume h: "hasNext lx"
  obtain q lx1 where a1: "Lexer_advance lx = (q, lx1)" by (cases "Lexer_advance lx")
  obtain q2 lx2 where a2: "Lexer_advance lx1 = (q2, lx2)" by (cases "Lexer_advance lx1")
  have "input lx1 = input lx" "position lx < position lx1" "input lx2 = input lx" "position lx < position lx2"
    using Lexer_advance_lt [OF h a1] Lexer_advance_le [OF a1] Lexer_advance_le [OF a2]
    by (simp_all add: lx_le_def)
  then show ?thesis
    by (simp add: nextToken_switch_def Let_def a1 a2)
qed


lemma nextToken_frame:
  "input (snd (nextToken lx0)) = input lx0
   \<and> position lx0 \<le> position (snd (nextToken lx0))
   \<and> (tok_type (fst (nextToken lx0)) = EOF_TOKEN \<or> position lx0 < position (snd (nextToken lx0)))"
proof (induction lx0 rule: nextToken.induct)
  case (1 lx0)
  let ?lx = "skipWhitespace lx0"
  let ?c = "Lexer_peek ?lx"
  let ?cm = "?c = CHR ''-'' \<and> position ?lx + 1 < length (input ?lx)
           \<and> input ?lx ! (position ?lx + 1) = CHR ''-''"
  have ws: "input ?lx = input lx0" "position lx0 \<le> position ?lx"
    using skipWhitespace_frame [of lx0] by simp_all
  show ?case
  proof (cases "hasNext ?lx")
    case False
    have "nextToken lx0 = (makeToken ?lx EOF_TOKEN [], ?lx)"
      by (subst nextToken.simps) (simp add: False Let_def)
    then show ?thesis using ws by (simp add: makeToken_def)
  next
    case nx: True
    show ?thesis
    proof (cases ?cm)
      case True
      have eq: "nextToken lx0 = nextToken (skipComment ?lx)"
        by (subst nextToken.simps) (simp only: Let_def nx not_True_eq_False if_False if_P [OF True])
      have nl: "Lexer_peek ?lx \<noteq> CHR 0x0A" using True by simp
      have ih: "input (snd (nextToken (skipComment ?lx))) = input (skipComment ?lx)
         \<and> position (skipComment ?lx) \<le> position (snd (nextToken (skipComment ?lx)))"
        using "1.IH" [OF refl _ refl True] nx by simp
      have "position ?lx < position (skipComment ?lx)" "input (skipComment ?lx) = input ?lx"
        using skipComment_step [OF nx nl] skipComment_frame [of ?lx] by simp_all
      then show ?thesis unfolding eq using ih ws by simp
    next
      case nocm: False
      show ?thesis
      proof (cases "?c = CHR 0x27 \<or> ?c = CHR 0x22")
        case True
        have eq: "nextToken lx0 = readString ?lx"
          by (subst nextToken.simps) (simp only: Let_def nx not_True_eq_False if_False if_not_P [OF nocm] if_P [OF True])
        show ?thesis unfolding eq using readString_frame [OF nx] ws by simp
      next
        case nostr: False
        show ?thesis
        proof (cases "isDigit ?c")
          case True
          have eq: "nextToken lx0 = readNumber ?lx"
            by (subst nextToken.simps)
               (simp only: Let_def nx not_True_eq_False if_False if_not_P [OF nocm] if_not_P [OF nostr] if_P [OF True])
          show ?thesis unfolding eq using readNumber_frame [OF nx True] ws by simp
        next
          case nodig: False
          show ?thesis
          proof (cases "isAlpha ?c")
            case True
            have eq: "nextToken lx0 = readIdentifier ?lx"
              by (subst nextToken.simps)
                 (simp only: Let_def nx not_True_eq_False if_False if_not_P [OF nocm] if_not_P [OF nostr]
                    if_not_P [OF nodig] if_P [OF True])
            show ?thesis unfolding eq using readIdentifier_frame [OF nx True] ws by simp
          next
            case noal: False
            have eq: "nextToken lx0 = nextToken_switch ?lx ?c"
              by (subst nextToken.simps)
                 (simp only: Let_def nx not_True_eq_False if_False if_not_P [OF nocm] if_not_P [OF nostr]
                    if_not_P [OF nodig] if_not_P [OF noal])
            show ?thesis unfolding eq using nextToken_switch_frame [OF nx, of ?c] ws by auto
          qed
        qed
      qed
    qed
  qed
qed

lemma nextToken_decreases:
  assumes "hasNext lx" and "(token, lx1) = nextToken lx" and "tok_type token \<noteq> EOF_TOKEN"
  shows "length (input lx1) - position lx1 < length (input lx) - position lx"
proof -
  have e: "nextToken lx = (token, lx1)" using assms(2) by simp
  have "input lx1 = input lx \<and> position lx < position lx1"
    using nextToken_frame [of lx] assms(3) unfolding e by simp
  then show ?thesis using assms(1) by (auto simp: hasNext_def)
qed

function tokenize_loop :: "Lexer \<Rightarrow> Token list \<Rightarrow> Token list" where
  "tokenize_loop lx tokens =
     (if hasNext lx
      then (case nextToken lx of (token, lx1) \<Rightarrow>
              let tokens1 = (if tok_type token \<noteq> INVALID then tokens @ [token] else tokens)
              in if tok_type token = EOF_TOKEN then tokens1 else tokenize_loop lx1 tokens1)
      else tokens)"
  by pat_completeness auto
termination
  by (relation "measure (\<lambda>(lx, tokens). length (input lx) - position lx)")
     (auto intro: nextToken_decreases)

declare tokenize_loop.simps [simp del]

definition tokenize :: "Lexer \<Rightarrow> Token list" where
  "tokenize lx = tokenize_loop lx []"



section \<open>Values, columns and schemas (types.h, storage.cpp)\<close>

datatype DataType = INTEGER | REAL | TEXT | BOOLEAN | NULL_TYPE

text \<open>
  A C++ \<^verbatim>\<open>double\<close>. Binary floating point is outside this model: the type is left
  unspecified, and the one operation the engine applies to it, the conversion
  \<^verbatim>\<open>std::stod\<close> of a REAL literal, is a parameter \<open>sd\<close> of the parser (\<open>None\<close> when
  \<^verbatim>\<open>std::stod\<close> throws).
\<close>

typedecl double

text \<open>Equality of two \<^verbatim>\<open>double\<close>s is needed to compare values; nothing more is said
  about it.\<close>

instantiation double :: equal
begin

definition equal_double :: "double \<Rightarrow> double \<Rightarrow> bool" where
  "equal_double x y \<longleftrightarrow> x = y"

instance
  by standard (simp add: equal_double_def)

end

text \<open>\<^verbatim>\<open>std::variant<int64_t, double, std::string, bool, std::nullptr_t>\<close>.\<close>

datatype Value = IntV "64 word" | RealV double | TextV string | BoolV bool | NullV

fun getType :: "Value \<Rightarrow> DataType" where
  "getType (IntV i) = INTEGER"
| "getType (RealV d) = REAL"
| "getType (TextV s) = TEXT"
| "getType (BoolV b) = BOOLEAN"
| "getType NullV = NULL_TYPE"

fun isNull :: "Value \<Rightarrow> bool" where
  "isNull NullV = True"
| "isNull v = False"

record Column =
  col_name :: string
  col_type :: DataType
  nullable :: bool
  primary_key :: bool

type_synonym Row = "Value list"

record Schema =
  columns :: "Column list"
  column_index :: "string \<rightharpoonup> nat"

definition empty_Schema :: Schema where
  "empty_Schema = \<lparr>columns = [], column_index = Map.empty\<rparr>"

definition addColumn :: "Schema \<Rightarrow> Column \<Rightarrow> Schema" where
  "addColumn s col =
     s\<lparr>column_index := (column_index s)(col_name col \<mapsto> length (columns s)),
       columns := columns s @ [col]\<rparr>"

definition getColumn :: "Schema \<Rightarrow> nat \<Rightarrow> Column result" where
  "getColumn s index =
     (if index \<ge> length (columns s) then Inl (Exception ''Column index out of range'')
      else Inr (columns s ! index))"

definition getColumn_by_name :: "Schema \<Rightarrow> string \<Rightarrow> Column option" where
  "getColumn_by_name s n =
     (case column_index s n of None \<Rightarrow> None | Some i \<Rightarrow> Some (columns s ! i))"

definition getColumnIndex :: "Schema \<Rightarrow> string \<Rightarrow> nat result" where
  "getColumnIndex s n =
     (case column_index s n of
        None \<Rightarrow> Inl (Exception (''Column not found: '' @ n))
      | Some i \<Rightarrow> Inr i)"

definition getColumnCount :: "Schema \<Rightarrow> nat" where
  "getColumnCount s = length (columns s)"

section \<open>Tables and the database (storage.h, storage.cpp)\<close>

record Table =
  tbl_name :: string
  schema :: Schema
  rows :: "Row list"

definition new_Table :: "string \<Rightarrow> Schema \<Rightarrow> Table" where
  "new_Table n s = \<lparr>tbl_name = n, schema = s, rows = []\<rparr>"

text \<open>The \<^verbatim>\<open>for\<close> loop of \<^verbatim>\<open>validateRow\<close>, from index \<open>i\<close> on.\<close>

function validateRow_loop :: "Schema \<Rightarrow> Row \<Rightarrow> nat \<Rightarrow> bool result" where
  "validateRow_loop s row i =
     (if i < length row
      then (case getColumn s i of
              Inl f \<Rightarrow> Inl f
            | Inr col \<Rightarrow>
                if \<not> nullable col \<and> isNull (row ! i) then Inr False
                else if \<not> isNull (row ! i) \<and> getType (row ! i) \<noteq> col_type col
                then Inr False
                else validateRow_loop s row (i + 1))
      else Inr True)"
  by pat_completeness auto
termination
  by (relation "measure (\<lambda>(s, row, i). length row - i)") auto

declare validateRow_loop.simps [simp del]

definition validateRow :: "Table \<Rightarrow> Row \<Rightarrow> bool result" where
  "validateRow t row =
     (if length row \<noteq> getColumnCount (schema t) then Inr False
      else validateRow_loop (schema t) row 0)"

definition insertRow :: "Table \<Rightarrow> Row \<Rightarrow> Table result" where
  "insertRow t row =
     (case validateRow t row of
        Inl f \<Rightarrow> Inl f
      | Inr ok \<Rightarrow>
          if \<not> ok then Inl (Exception ''Row validation failed'')
          else Inr (t\<lparr>rows := rows t @ [row]\<rparr>))"

record Database =
  tables :: "string \<rightharpoonup> Table"

definition empty_Database :: Database where
  "empty_Database = \<lparr>tables = Map.empty\<rparr>"

definition hasTable :: "Database \<Rightarrow> string \<Rightarrow> bool" where
  "hasTable db n \<longleftrightarrow> tables db n \<noteq> None"

definition createTable :: "Database \<Rightarrow> string \<Rightarrow> Schema \<Rightarrow> Database result" where
  "createTable db n s =
     (if hasTable db n then Inl (Exception (''Table already exists: '' @ n))
      else Inr (db\<lparr>tables := (tables db)(n \<mapsto> new_Table n s)\<rparr>))"

definition getTable :: "Database \<Rightarrow> string \<Rightarrow> Table option" where
  "getTable db n = tables db n"

definition dropTable :: "Database \<Rightarrow> string \<Rightarrow> Database" where
  "dropTable db n = db\<lparr>tables := (tables db)(n := None)\<rparr>"

section \<open>Syntax trees (ast.h)\<close>

datatype BinaryOperator =
    BinOp_ADD | BinOp_SUBTRACT | BinOp_MULTIPLY | BinOp_DIVIDE
  | BinOp_EQUAL | BinOp_NOT_EQUAL | BinOp_LESS_THAN | BinOp_LESS_EQUAL
  | BinOp_GREATER_THAN | BinOp_GREATER_EQUAL
  | BinOp_AND | BinOp_OR

datatype UnaryOperator = UnOp_NOT | UnOp_MINUS

text \<open>\<^verbatim>\<open>ColumnExpression\<close> holds \<^verbatim>\<open>table_name\<close> (empty when absent), then
  \<^verbatim>\<open>column_name\<close>.\<close>

datatype Expression =
    LiteralExpression Value
  | ColumnExpression string string
  | BinaryExpression Expression BinaryOperator Expression
  | UnaryExpression UnaryOperator Expression

record SelectStatement =
  select_list :: "Expression list"
  from_table :: string
  where_clause :: "Expression option"
  order_by :: "string list"
  order_desc :: bool
  limit :: "32 word"

definition new_SelectStatement :: SelectStatement where
  "new_SelectStatement =
     \<lparr>select_list = [], from_table = [], where_clause = None, order_by = [],
      order_desc = False, limit = - 1\<rparr>"

record InsertStatement =
  ins_table_name :: string
  ins_columns :: "string list"
  ins_values :: "Expression list list"

record CreateTableStatement =
  crt_table_name :: string
  crt_columns :: "Column list"

record DropTableStatement =
  drop_table_name :: string

datatype Statement =
    Select SelectStatement
  | Insert InsertStatement
  | CreateTable CreateTableStatement
  | DropTable DropTableStatement

section \<open>Parser (parser.cpp)\<close>

text \<open>
  The parser object holds the token vector \<open>ts\<close>, which never changes, and the cursor
  \<^verbatim>\<open>current_\<close>, which every function here takes as \<open>cur\<close> and returns updated.
\<close>

definition Parser_peek :: "Token list \<Rightarrow> nat \<Rightarrow> Token result" where
  "Parser_peek ts cur = (if cur < length ts then Inr (ts ! cur) else Inl UndefinedBehaviour)"

text \<open>\<^verbatim>\<open>tokens_[current_ - 1]\<close>: at \<^verbatim>\<open>current_ == 0\<close> the unsigned index wraps around and
  is out of range.\<close>

definition previous :: "Token list \<Rightarrow> nat \<Rightarrow> Token result" where
  "previous ts cur =
     (if 0 < cur \<and> cur - 1 < length ts then Inr (ts ! (cur - 1)) else Inl UndefinedBehaviour)"

definition isAtEnd :: "Token list \<Rightarrow> nat \<Rightarrow> bool result" where
  "isAtEnd ts cur =
     (case Parser_peek ts cur of Inl f \<Rightarrow> Inl f | Inr t \<Rightarrow> Inr (tok_type t = EOF_TOKEN))"

definition Parser_advance :: "Token list \<Rightarrow> nat \<Rightarrow> (Token \<times> nat) result" where
  "Parser_advance ts cur =
     (case isAtEnd ts cur of
        Inl f \<Rightarrow> Inl f
      | Inr e \<Rightarrow>
          (let cur1 = (if \<not> e then cur + 1 else cur)
           in case previous ts cur1 of Inl f \<Rightarrow> Inl f | Inr t \<Rightarrow> Inr (t, cur1)))"

definition check :: "Token list \<Rightarrow> TokenType \<Rightarrow> nat \<Rightarrow> bool result" where
  "check ts ty cur =
     (case isAtEnd ts cur of
        Inl f \<Rightarrow> Inl f
      | Inr e \<Rightarrow>
          if e then Inr False
          else (case Parser_peek ts cur of Inl f \<Rightarrow> Inl f | Inr t \<Rightarrow> Inr (tok_type t = ty)))"

definition match :: "Token list \<Rightarrow> TokenType \<Rightarrow> nat \<Rightarrow> (bool \<times> nat) result" where
  "match ts ty cur =
     (case check ts ty cur of
        Inl f \<Rightarrow> Inl f
      | Inr c \<Rightarrow>
          if c then (case Parser_advance ts cur of
                       Inl f \<Rightarrow> Inl f
                     | Inr (t, cur1) \<Rightarrow> Inr (True, cur1))
          else Inr (False, cur))"

text \<open>\<^verbatim>\<open>match(const std::vector<TokenType>&)\<close>.\<close>

fun match_types :: "Token list \<Rightarrow> TokenType list \<Rightarrow> nat \<Rightarrow> (bool \<times> nat) result" where
  "match_types ts [] cur = Inr (False, cur)"
| "match_types ts (ty # types) cur =
     (case check ts ty cur of
        Inl f \<Rightarrow> Inl f
      | Inr c \<Rightarrow>
          if c then (case Parser_advance ts cur of
                       Inl f \<Rightarrow> Inl f
                     | Inr (t, cur1) \<Rightarrow> Inr (True, cur1))
          else match_types ts types cur)"

text \<open>\<^verbatim>\<open>std::to_string\<close> of an unsigned number.\<close>

fun to_string :: "nat \<Rightarrow> string" where
  "to_string n =
     (if n < 10 then [char_of (48 + n)] else to_string (n div 10) @ [char_of (48 + n mod 10)])"

declare to_string.simps [simp del]

text \<open>\<^verbatim>\<open>Parser::error\<close> always throws (or reads past the end in \<^verbatim>\<open>isAtEnd\<close>).\<close>

definition error :: "Token list \<Rightarrow> string \<Rightarrow> nat \<Rightarrow> failure" where
  "error ts message cur =
     (case isAtEnd ts cur of
        Inl f \<Rightarrow> f
      | Inr e \<Rightarrow>
          if \<not> e
          then (case Parser_peek ts cur of
                  Inl f \<Rightarrow> f
                | Inr t \<Rightarrow>
                    Exception (''Parse error at token '' @ to_string cur @ '': '' @ message
                               @ '' (got '' @ [CHR 0x27] @ tok_value t @ [CHR 0x27] @ '')''))
          else Exception (''Parse error at token '' @ to_string cur @ '': '' @ message))"

definition consume :: "Token list \<Rightarrow> TokenType \<Rightarrow> string \<Rightarrow> nat \<Rightarrow> nat result" where
  "consume ts ty message cur =
     (case check ts ty cur of
        Inl f \<Rightarrow> Inl f
      | Inr c \<Rightarrow>
          if c then (case Parser_advance ts cur of Inl f \<Rightarrow> Inl f | Inr (t, cur1) \<Rightarrow> Inr cur1)
          else Inl (error ts message cur))"

subsection \<open>Literal conversions\<close>

text \<open>
  \<^verbatim>\<open>std::stoll\<close> and \<^verbatim>\<open>std::stoi\<close> read leading whitespace, an optional sign and the
  longest run of decimal digits. They throw \<^verbatim>\<open>std::invalid_argument\<close> when there is no
  digit and \<^verbatim>\<open>std::out_of_range\<close> when the number does not fit; in both cases \<^verbatim>\<open>what()\<close>
  is the name of the function (libstdc++).
\<close>

definition digits_value :: "string \<Rightarrow> int" where
  "digits_value ds = foldl (\<lambda>n c. 10 * n + (of_char c - 48)) 0 ds"

definition signed_digits :: "string \<Rightarrow> bool \<times> string" where
  "signed_digits s =
     (let s1 = dropWhile isspace s;
          negative = (s1 \<noteq> [] \<and> hd s1 = CHR ''-'');
          s2 = (if s1 \<noteq> [] \<and> (hd s1 = CHR ''-'' \<or> hd s1 = CHR ''+'') then tl s1 else s1)
      in (negative, takeWhile isDigit s2))"

definition stoll :: "string \<Rightarrow> 64 word result" where
  "stoll s =
     (case signed_digits s of (negative, ds) \<Rightarrow>
        if ds = [] then Inl (Exception ''stoll'')
        else if negative
        then (if digits_value ds > 9223372036854775808 then Inl (Exception ''stoll'')
              else Inr (- word_of_int (digits_value ds)))
        else (if digits_value ds > 9223372036854775807 then Inl (Exception ''stoll'')
              else Inr (word_of_int (digits_value ds))))"

definition stoi :: "string \<Rightarrow> 32 word result" where
  "stoi s =
     (case signed_digits s of (negative, ds) \<Rightarrow>
        if ds = [] then Inl (Exception ''stoi'')
        else if negative
        then (if digits_value ds > 2147483648 then Inl (Exception ''stoi'')
              else Inr (- word_of_int (digits_value ds)))
        else (if digits_value ds > 2147483647 then Inl (Exception ''stoi'')
              else Inr (word_of_int (digits_value ds))))"

definition parseValue ::
  "(string \<Rightarrow> double option) \<Rightarrow> Token list \<Rightarrow> Token \<Rightarrow> nat \<Rightarrow> Value result" where
  "parseValue sd ts token cur =
     (if tok_type token = INTEGER_LITERAL
      then (case stoll (tok_value token) of Inl f \<Rightarrow> Inl f | Inr i \<Rightarrow> Inr (IntV i))
      else if tok_type token = REAL_LITERAL
      then (case sd (tok_value token) of
              None \<Rightarrow> Inl (Exception ''stod'')
            | Some d \<Rightarrow> Inr (RealV d))
      else if tok_type token = STRING_LITERAL then Inr (TextV (tok_value token))
      else if tok_type token = TRUE then Inr (BoolV True)
      else if tok_type token = FALSE then Inr (BoolV False)
      else Inl (error ts ''Invalid literal value'' cur))"

definition parseDataType :: "Token list \<Rightarrow> nat \<Rightarrow> (DataType \<times> nat) result" where
  "parseDataType ts cur =
     (case match ts INTEGER_TYPE cur of
        Inl f \<Rightarrow> Inl f
      | Inr (m1, cur1) \<Rightarrow>
          if m1 then Inr (INTEGER, cur1)
          else (case match ts REAL_TYPE cur1 of
                  Inl f \<Rightarrow> Inl f
                | Inr (m2, cur2) \<Rightarrow>
                    if m2 then Inr (REAL, cur2)
                    else (case match ts TEXT_TYPE cur2 of
                            Inl f \<Rightarrow> Inl f
                          | Inr (m3, cur3) \<Rightarrow>
                              if m3 then Inr (TEXT, cur3)
                              else (case match ts BOOLEAN_TYPE cur3 of
                                      Inl f \<Rightarrow> Inl f
                                    | Inr (m4, cur4) \<Rightarrow>
                                        if m4 then Inr (BOOLEAN, cur4)
                                        else Inl (error ts ''Expected data type'' cur4)))))"

subsection \<open>The cursor only moves forward\<close>

lemma Parser_advance_cur:
  "Parser_advance ts cur = Inr (t, cur1) \<Longrightarrow> cur \<le> cur1 \<and> cur1 \<le> Suc cur"
  by (auto simp: Parser_advance_def Let_def split: sum.splits if_splits)

lemma check_True:
  "check ts ty cur = Inr True \<Longrightarrow> cur < length ts \<and> isAtEnd ts cur = Inr False"
  by (auto simp: check_def isAtEnd_def Parser_peek_def split: sum.splits if_splits)

lemma match_cur:
  "match ts ty cur = Inr (m, cur1) \<Longrightarrow>
     (m \<longrightarrow> cur < length ts \<and> cur1 = Suc cur) \<and> (\<not> m \<longrightarrow> cur1 = cur)"
  by (auto simp: match_def Parser_advance_def Let_def dest!: check_True
           split: sum.splits if_splits)

lemma match_types_cur:
  "match_types ts types cur = Inr (m, cur1) \<Longrightarrow>
     (m \<longrightarrow> cur < length ts \<and> cur1 = Suc cur) \<and> (\<not> m \<longrightarrow> cur1 = cur)"
proof (induction types)
  case Nil
  then show ?case by simp
next
  case (Cons ty types)
  then show ?case
    by (auto simp: Parser_advance_def Let_def dest!: check_True split: sum.splits if_splits)
qed

lemma consume_cur:
  "consume ts ty message cur = Inr cur1 \<Longrightarrow> cur < length ts \<and> cur1 = Suc cur"
  by (auto simp: consume_def Parser_advance_def Let_def dest!: check_True
           split: sum.splits if_splits)

subsection \<open>Expressions\<close>

text \<open>
  One function for each parsing method; the \<^verbatim>\<open>while (match(...))\<close> loop of a method
  is the function whose name ends in \<open>_loop\<close>, which takes the expression built so far.
\<close>

function
  parseExpression ::
    "(string \<Rightarrow> double option) \<Rightarrow> Token list \<Rightarrow> nat \<Rightarrow> (Expression \<times> nat) result" and
  parseOrExpression ::
    "(string \<Rightarrow> double option) \<Rightarrow> Token list \<Rightarrow> nat \<Rightarrow> (Expression \<times> nat) result" and
  parseOrExpression_loop ::
    "(string \<Rightarrow> double option) \<Rightarrow> Token list \<Rightarrow> Expression \<Rightarrow> nat
       \<Rightarrow> (Expression \<times> nat) result" and
  parseAndExpression ::
    "(string \<Rightarrow> double option) \<Rightarrow> Token list \<Rightarrow> nat \<Rightarrow> (Expression \<times> nat) result" and
  parseAndExpression_loop ::
    "(string \<Rightarrow> double option) \<Rightarrow> Token list \<Rightarrow> Expression \<Rightarrow> nat
       \<Rightarrow> (Expression \<times> nat) result" and
  parseEqualityExpression ::
    "(string \<Rightarrow> double option) \<Rightarrow> Token list \<Rightarrow> nat \<Rightarrow> (Expression \<times> nat) result" and
  parseEqualityExpression_loop ::
    "(string \<Rightarrow> double option) \<Rightarrow> Token list \<Rightarrow> Expression \<Rightarrow> nat
       \<Rightarrow> (Expression \<times> nat) result" and
  parseComparisonExpression ::
    "(string \<Rightarrow> double option) \<Rightarrow> Token list \<Rightarrow> nat \<Rightarrow> (Expression \<times> nat) result" and
  parseComparisonExpression_loop ::
    "(string \<Rightarrow> double option) \<Rightarrow> Token list \<Rightarrow> Expression \<Rightarrow> nat
       \<Rightarrow> (Expression \<times> nat) result" and
  parseTermExpression ::
    "(string \<Rightarrow> double option) \<Rightarrow> Token list \<Rightarrow> nat \<Rightarrow> (Expression \<times> nat) result" and
  parseTermExpression_loop ::
    "(string \<Rightarrow> double option) \<Rightarrow> Token list \<Rightarrow> Expression \<Rightarrow> nat
       \<Rightarrow> (Expression \<times> nat) result" and
  parseFactorExpression ::
    "(string \<Rightarrow> double option) \<Rightarrow> Token list \<Rightarrow> nat \<Rightarrow> (Expression \<times> nat) result" and
  parseFactorExpression_loop ::
    "(string \<Rightarrow> double option) \<Rightarrow> Token list \<Rightarrow> Expression \<Rightarrow> nat
       \<Rightarrow> (Expression \<times> nat) result" and
  parseUnaryExpression ::
    "(string \<Rightarrow> double option) \<Rightarrow> Token list \<Rightarrow> nat \<Rightarrow> (Expression \<times> nat) result" and
  parsePrimaryExpression ::
    "(string \<Rightarrow> double option) \<Rightarrow> Token list \<Rightarrow> nat \<Rightarrow> (Expression \<times> nat) result"
where
  "parseExpression sd ts cur = parseOrExpression sd ts cur"
| "parseOrExpression sd ts cur =
     (case parseAndExpression sd ts cur of
        Inl f \<Rightarrow> Inl f
      | Inr (expr, cur1) \<Rightarrow> parseOrExpression_loop sd ts expr cur1)"
| "parseOrExpression_loop sd ts expr cur =
     (case match ts OR cur of
        Inl f \<Rightarrow> Inl f
      | Inr (m, cur1) \<Rightarrow>
          if m
          then (case parseAndExpression sd ts cur1 of
                  Inl f \<Rightarrow> Inl f
                | Inr (right, cur2) \<Rightarrow>
                    parseOrExpression_loop sd ts (BinaryExpression expr BinOp_OR right) cur2)
          else Inr (expr, cur1))"
| "parseAndExpression sd ts cur =
     (case parseEqualityExpression sd ts cur of
        Inl f \<Rightarrow> Inl f
      | Inr (expr, cur1) \<Rightarrow> parseAndExpression_loop sd ts expr cur1)"
| "parseAndExpression_loop sd ts expr cur =
     (case match ts AND cur of
        Inl f \<Rightarrow> Inl f
      | Inr (m, cur1) \<Rightarrow>
          if m
          then (case parseEqualityExpression sd ts cur1 of
                  Inl f \<Rightarrow> Inl f
                | Inr (right, cur2) \<Rightarrow>
                    parseAndExpression_loop sd ts (BinaryExpression expr BinOp_AND right) cur2)
          else Inr (expr, cur1))"
| "parseEqualityExpression sd ts cur =
     (case parseComparisonExpression sd ts cur of
        Inl f \<Rightarrow> Inl f
      | Inr (expr, cur1) \<Rightarrow> parseEqualityExpression_loop sd ts expr cur1)"
| "parseEqualityExpression_loop sd ts expr cur =
     (case match_types ts [NOT_EQUAL, EQUAL] cur of
        Inl f \<Rightarrow> Inl f
      | Inr (m, cur1) \<Rightarrow>
          if m
          then (case previous ts cur1 of
                  Inl f \<Rightarrow> Inl f
                | Inr p \<Rightarrow>
                    (case parseComparisonExpression sd ts cur1 of
                       Inl f \<Rightarrow> Inl f
                     | Inr (right, cur2) \<Rightarrow>
                         parseEqualityExpression_loop sd ts
                           (BinaryExpression expr
                              (if tok_type p = EQUAL then BinOp_EQUAL else BinOp_NOT_EQUAL) right)
                           cur2))
          else Inr (expr, cur1))"
| "parseComparisonExpression sd ts cur =
     (case parseTermExpression sd ts cur of
        Inl f \<Rightarrow> Inl f
      | Inr (expr, cur1) \<Rightarrow> parseComparisonExpression_loop sd ts expr cur1)"
| "parseComparisonExpression_loop sd ts expr cur =
     (case match_types ts [GREATER_THAN, GREATER_EQUAL, LESS_THAN, LESS_EQUAL] cur of
        Inl f \<Rightarrow> Inl f
      | Inr (m, cur1) \<Rightarrow>
          if m
          then (case previous ts cur1 of
                  Inl f \<Rightarrow> Inl f
                | Inr p \<Rightarrow>
                    (case parseTermExpression sd ts cur1 of
                       Inl f \<Rightarrow> Inl f
                     | Inr (right, cur2) \<Rightarrow>
                         parseComparisonExpression_loop sd ts
                           (BinaryExpression expr
                              (if tok_type p = GREATER_THAN then BinOp_GREATER_THAN
                               else if tok_type p = GREATER_EQUAL then BinOp_GREATER_EQUAL
                               else if tok_type p = LESS_THAN then BinOp_LESS_THAN
                               else if tok_type p = LESS_EQUAL then BinOp_LESS_EQUAL
                               else BinOp_EQUAL) right)
                           cur2))
          else Inr (expr, cur1))"
| "parseTermExpression sd ts cur =
     (case parseFactorExpression sd ts cur of
        Inl f \<Rightarrow> Inl f
      | Inr (expr, cur1) \<Rightarrow> parseTermExpression_loop sd ts expr cur1)"
| "parseTermExpression_loop sd ts expr cur =
     (case match_types ts [MINUS, PLUS] cur of
        Inl f \<Rightarrow> Inl f
      | Inr (m, cur1) \<Rightarrow>
          if m
          then (case previous ts cur1 of
                  Inl f \<Rightarrow> Inl f
                | Inr p \<Rightarrow>
                    (case parseFactorExpression sd ts cur1 of
                       Inl f \<Rightarrow> Inl f
                     | Inr (right, cur2) \<Rightarrow>
                         parseTermExpression_loop sd ts
                           (BinaryExpression expr
                              (if tok_type p = PLUS then BinOp_ADD else BinOp_SUBTRACT) right)
                           cur2))
          else Inr (expr, cur1))"
| "parseFactorExpression sd ts cur =
     (case parseUnaryExpression sd ts cur of
        Inl f \<Rightarrow> Inl f
      | Inr (expr, cur1) \<Rightarrow> parseFactorExpression_loop sd ts expr cur1)"
| "parseFactorExpression_loop sd ts expr cur =
     (case match_types ts [DIVIDE, MULTIPLY] cur of
        Inl f \<Rightarrow> Inl f
      | Inr (m, cur1) \<Rightarrow>
          if m
          then (case previous ts cur1 of
                  Inl f \<Rightarrow> Inl f
                | Inr p \<Rightarrow>
                    (case parseUnaryExpression sd ts cur1 of
                       Inl f \<Rightarrow> Inl f
                     | Inr (right, cur2) \<Rightarrow>
                         parseFactorExpression_loop sd ts
                           (BinaryExpression expr
                              (if tok_type p = MULTIPLY then BinOp_MULTIPLY else BinOp_DIVIDE)
                              right)
                           cur2))
          else Inr (expr, cur1))"
| "parseUnaryExpression sd ts cur =
     (case match_types ts [NOT, MINUS] cur of
        Inl f \<Rightarrow> Inl f
      | Inr (m, cur1) \<Rightarrow>
          if m
          then (case previous ts cur1 of
                  Inl f \<Rightarrow> Inl f
                | Inr p \<Rightarrow>
                    (case parseUnaryExpression sd ts cur1 of
                       Inl f \<Rightarrow> Inl f
                     | Inr (expr, cur2) \<Rightarrow>
                         Inr (UnaryExpression
                                (if tok_type p = NOT then UnOp_NOT else UnOp_MINUS) expr,
                              cur2)))
          else parsePrimaryExpression sd ts cur1)"
| "parsePrimaryExpression sd ts cur =
     (case match_types ts [TRUE, FALSE] cur of
        Inl f \<Rightarrow> Inl f
      | Inr (m1, cur1) \<Rightarrow>
          if m1
          then (case previous ts cur1 of
                  Inl f \<Rightarrow> Inl f
                | Inr p \<Rightarrow> Inr (LiteralExpression (BoolV (tok_type p = TRUE)), cur1))
          else
          (case match ts NULL_KW cur1 of
             Inl f \<Rightarrow> Inl f
           | Inr (m2, cur2) \<Rightarrow>
               if m2 then Inr (LiteralExpression NullV, cur2)
               else
               (case match_types ts [INTEGER_LITERAL, REAL_LITERAL, STRING_LITERAL] cur2 of
                  Inl f \<Rightarrow> Inl f
                | Inr (m3, cur3) \<Rightarrow>
                    if m3
                    then (case previous ts cur3 of
                            Inl f \<Rightarrow> Inl f
                          | Inr p \<Rightarrow>
                              (case parseValue sd ts p cur3 of
                                 Inl f \<Rightarrow> Inl f
                               | Inr v \<Rightarrow> Inr (LiteralExpression v, cur3)))
                    else
                    (case match ts IDENTIFIER cur3 of
                       Inl f \<Rightarrow> Inl f
                     | Inr (m4, cur4) \<Rightarrow>
                         if m4
                         then (case previous ts cur4 of
                                 Inl f \<Rightarrow> Inl f
                               | Inr p \<Rightarrow>
                                   (case match ts DOT cur4 of
                                      Inl f \<Rightarrow> Inl f
                                    | Inr (m5, cur5) \<Rightarrow>
                                        if m5
                                        then (case consume ts IDENTIFIER
                                                     (''Expected column name after '.'' @ [CHR 0x27])
                                                     cur5 of
                                                Inl f \<Rightarrow> Inl f
                                              | Inr cur6 \<Rightarrow>
                                                  (case previous ts cur6 of
                                                     Inl f \<Rightarrow> Inl f
                                                   | Inr q \<Rightarrow>
                                                       Inr (ColumnExpression (tok_value p)
                                                              (tok_value q), cur6)))
                                        else Inr (ColumnExpression [] (tok_value p), cur5)))
                         else
                         (case match ts LEFT_PAREN cur4 of
                            Inl f \<Rightarrow> Inl f
                          | Inr (m6, cur6) \<Rightarrow>
                              if m6
                              then (case parseExpression sd ts cur6 of
                                      Inl f \<Rightarrow> Inl f
                                    | Inr (expr, cur7) \<Rightarrow>
                                        (case consume ts RIGHT_PAREN
                                                ''Expected ')' after expression'' cur7 of
                                           Inl f \<Rightarrow> Inl f
                                         | Inr cur8 \<Rightarrow> Inr (expr, cur8)))
                              else Inl (error ts ''Expected expression'' cur6))))))"
  by pat_completeness auto
declare match_types.simps [simp del]

lemmas parse_pinduct = parseExpression_parseOrExpression_parseOrExpression_loop_parseAndExpression_parseAndExpression_loop_parseEqualityExpression_parseEqualityExpression_loop_parseComparisonExpression_parseComparisonExpression_loop_parseTermExpression_parseTermExpression_loop_parseFactorExpression_parseFactorExpression_loop_parseUnaryExpression_parsePrimaryExpression.pinduct

lemmas parse_psimps = parseExpression.psimps parseOrExpression.psimps parseOrExpression_loop.psimps parseAndExpression.psimps parseAndExpression_loop.psimps parseEqualityExpression.psimps parseEqualityExpression_loop.psimps parseComparisonExpression.psimps parseComparisonExpression_loop.psimps parseTermExpression.psimps parseTermExpression_loop.psimps parseFactorExpression.psimps parseFactorExpression_loop.psimps parseUnaryExpression.psimps parsePrimaryExpression.psimps

text \<open>Where a parsing function is defined and returns, the cursor has not moved back.\<close>

lemma parse_cursor_partial:
  "parseExpression_parseOrExpression_parseOrExpression_loop_parseAndExpression_parseAndExpression_loop_parseEqualityExpression_parseEqualityExpression_loop_parseComparisonExpression_parseComparisonExpression_loop_parseTermExpression_parseTermExpression_loop_parseFactorExpression_parseFactorExpression_loop_parseUnaryExpression_parsePrimaryExpression_dom (Inl (Inl (Inl (sd, ts, cur)))) \<Longrightarrow>
     \<forall>e c. parseExpression sd ts cur = Inr (e, c) \<longrightarrow> cur \<le> c"
  "parseExpression_parseOrExpression_parseOrExpression_loop_parseAndExpression_parseAndExpression_loop_parseEqualityExpression_parseEqualityExpression_loop_parseComparisonExpression_parseComparisonExpression_loop_parseTermExpression_parseTermExpression_loop_parseFactorExpression_parseFactorExpression_loop_parseUnaryExpression_parsePrimaryExpression_dom (Inl (Inl (Inr (Inl (sd, ts, cur))))) \<Longrightarrow>
     \<forall>e c. parseOrExpression sd ts cur = Inr (e, c) \<longrightarrow> cur \<le> c"
  "parseExpression_parseOrExpression_parseOrExpression_loop_parseAndExpression_parseAndExpression_loop_parseEqualityExpression_parseEqualityExpression_loop_parseComparisonExpression_parseComparisonExpression_loop_parseTermExpression_parseTermExpression_loop_parseFactorExpression_parseFactorExpression_loop_parseUnaryExpression_parsePrimaryExpression_dom (Inl (Inl (Inr (Inr (sd, ts, expr, cur))))) \<Longrightarrow>
     \<forall>e c. parseOrExpression_loop sd ts expr cur = Inr (e, c) \<longrightarrow> cur \<le> c"
  "parseExpression_parseOrExpression_parseOrExpression_loop_parseAndExpression_parseAndExpression_loop_parseEqualityExpression_parseEqualityExpression_loop_parseComparisonExpression_parseComparisonExpression_loop_parseTermExpression_parseTermExpression_loop_parseFactorExpression_parseFactorExpression_loop_parseUnaryExpression_parsePrimaryExpression_dom (Inl (Inr (Inl (Inl (sd, ts, cur))))) \<Longrightarrow>
     \<forall>e c. parseAndExpression sd ts cur = Inr (e, c) \<longrightarrow> cur \<le> c"
  "parseExpression_parseOrExpression_parseOrExpression_loop_parseAndExpression_parseAndExpression_loop_parseEqualityExpression_parseEqualityExpression_loop_parseComparisonExpression_parseComparisonExpression_loop_parseTermExpression_parseTermExpression_loop_parseFactorExpression_parseFactorExpression_loop_parseUnaryExpression_parsePrimaryExpression_dom (Inl (Inr (Inl (Inr (sd, ts, expr, cur))))) \<Longrightarrow>
     \<forall>e c. parseAndExpression_loop sd ts expr cur = Inr (e, c) \<longrightarrow> cur \<le> c"
  "parseExpression_parseOrExpression_parseOrExpression_loop_parseAndExpression_parseAndExpression_loop_parseEqualityExpression_parseEqualityExpression_loop_parseComparisonExpression_parseComparisonExpression_loop_parseTermExpression_parseTermExpression_loop_parseFactorExpression_parseFactorExpression_loop_parseUnaryExpression_parsePrimaryExpression_dom (Inl (Inr (Inr (Inl (sd, ts, cur))))) \<Longrightarrow>
     \<forall>e c. parseEqualityExpression sd ts cur = Inr (e, c) \<longrightarrow> cur \<le> c"
  "parseExpression_parseOrExpression_parseOrExpression_loop_parseAndExpression_parseAndExpression_loop_parseEqualityExpression_parseEqualityExpression_loop_parseComparisonExpression_parseComparisonExpression_loop_parseTermExpression_parseTermExpression_loop_parseFactorExpression_parseFactorExpression_loop_parseUnaryExpression_parsePrimaryExpression_dom (Inl (Inr (Inr (Inr (sd, ts, expr, cur))))) \<Longrightarrow>
     \<forall>e c. parseEqualityExpression_loop sd ts expr cur = Inr (e, c) \<longrightarrow> cur \<le> c"
  "parseExpression_parseOrExpression_parseOrExpression_loop_parseAndExpression_parseAndExpression_loop_parseEqualityExpression_parseEqualityExpression_loop_parseComparisonExpression_parseComparisonExpression_loop_parseTermExpression_parseTermExpression_loop_parseFactorExpression_parseFactorExpression_loop_parseUnaryExpression_parsePrimaryExpression_dom (Inr (Inl (Inl (Inl (sd, ts, cur))))) \<Longrightarrow>
     \<forall>e c. parseComparisonExpression sd ts cur = Inr (e, c) \<longrightarrow> cur \<le> c"
  "parseExpression_parseOrExpression_parseOrExpression_loop_parseAndExpression_parseAndExpression_loop_parseEqualityExpression_parseEqualityExpression_loop_parseComparisonExpression_parseComparisonExpression_loop_parseTermExpression_parseTermExpression_loop_parseFactorExpression_parseFactorExpression_loop_parseUnaryExpression_parsePrimaryExpression_dom (Inr (Inl (Inl (Inr (sd, ts, expr, cur))))) \<Longrightarrow>
     \<forall>e c. parseComparisonExpression_loop sd ts expr cur = Inr (e, c) \<longrightarrow> cur \<le> c"
  "parseExpression_parseOrExpression_parseOrExpression_loop_parseAndExpression_parseAndExpression_loop_parseEqualityExpression_parseEqualityExpression_loop_parseComparisonExpression_parseComparisonExpression_loop_parseTermExpression_parseTermExpression_loop_parseFactorExpression_parseFactorExpression_loop_parseUnaryExpression_parsePrimaryExpression_dom (Inr (Inl (Inr (Inl (sd, ts, cur))))) \<Longrightarrow>
     \<forall>e c. parseTermExpression sd ts cur = Inr (e, c) \<longrightarrow> cur \<le> c"
  "parseExpression_parseOrExpression_parseOrExpression_loop_parseAndExpression_parseAndExpression_loop_parseEqualityExpression_parseEqualityExpression_loop_parseComparisonExpression_parseComparisonExpression_loop_parseTermExpression_parseTermExpression_loop_parseFactorExpression_parseFactorExpression_loop_parseUnaryExpression_parsePrimaryExpression_dom (Inr (Inl (Inr (Inr (sd, ts, expr, cur))))) \<Longrightarrow>
     \<forall>e c. parseTermExpression_loop sd ts expr cur = Inr (e, c) \<longrightarrow> cur \<le> c"
  "parseExpression_parseOrExpression_parseOrExpression_loop_parseAndExpression_parseAndExpression_loop_parseEqualityExpression_parseEqualityExpression_loop_parseComparisonExpression_parseComparisonExpression_loop_parseTermExpression_parseTermExpression_loop_parseFactorExpression_parseFactorExpression_loop_parseUnaryExpression_parsePrimaryExpression_dom (Inr (Inr (Inl (Inl (sd, ts, cur))))) \<Longrightarrow>
     \<forall>e c. parseFactorExpression sd ts cur = Inr (e, c) \<longrightarrow> cur \<le> c"
  "parseExpression_parseOrExpression_parseOrExpression_loop_parseAndExpression_parseAndExpression_loop_parseEqualityExpression_parseEqualityExpression_loop_parseComparisonExpression_parseComparisonExpression_loop_parseTermExpression_parseTermExpression_loop_parseFactorExpression_parseFactorExpression_loop_parseUnaryExpression_parsePrimaryExpression_dom (Inr (Inr (Inl (Inr (sd, ts, expr, cur))))) \<Longrightarrow>
     \<forall>e c. parseFactorExpression_loop sd ts expr cur = Inr (e, c) \<longrightarrow> cur \<le> c"
  "parseExpression_parseOrExpression_parseOrExpression_loop_parseAndExpression_parseAndExpression_loop_parseEqualityExpression_parseEqualityExpression_loop_parseComparisonExpression_parseComparisonExpression_loop_parseTermExpression_parseTermExpression_loop_parseFactorExpression_parseFactorExpression_loop_parseUnaryExpression_parsePrimaryExpression_dom (Inr (Inr (Inr (Inl (sd, ts, cur))))) \<Longrightarrow>
     \<forall>e c. parseUnaryExpression sd ts cur = Inr (e, c) \<longrightarrow> cur \<le> c"
  "parseExpression_parseOrExpression_parseOrExpression_loop_parseAndExpression_parseAndExpression_loop_parseEqualityExpression_parseEqualityExpression_loop_parseComparisonExpression_parseComparisonExpression_loop_parseTermExpression_parseTermExpression_loop_parseFactorExpression_parseFactorExpression_loop_parseUnaryExpression_parsePrimaryExpression_dom (Inr (Inr (Inr (Inr (sd, ts, cur))))) \<Longrightarrow>
     \<forall>e c. parsePrimaryExpression sd ts cur = Inr (e, c) \<longrightarrow> cur \<le> c"
proof (induct rule: parse_pinduct)
  case (1 sd ts cur)
  then show ?case by (simp add: parse_psimps)
next
  case (2 sd ts cur)
  show ?case
  proof (intro allI impI)
    fix e c
    assume r: "parseOrExpression sd ts cur = Inr (e, c)"
    from r 2(1) obtain expr cur1 where
      a: "parseAndExpression sd ts cur = Inr (expr, cur1)"
      and l: "parseOrExpression_loop sd ts expr cur1 = Inr (e, c)"
      by (auto simp: parse_psimps split: sum.splits prod.splits)
    have "cur \<le> cur1" using 2(2) a by blast
    moreover have "cur1 \<le> c" using 2(3) [OF a refl] l by blast
    ultimately show "cur \<le> c" by simp
  qed
next
  case (3 sd ts expr cur)
  show ?case
  proof (intro allI impI)
    fix e c
    assume r: "parseOrExpression_loop sd ts expr cur = Inr (e, c)"
    obtain m cur1 where mt: "match ts OR cur = Inr (m, cur1)"
      using r 3(1) by (auto simp: parse_psimps split: sum.splits prod.splits)
    note mc = match_cur [OF mt]
    show "cur \<le> c"
    proof (cases m)
      case False
      then show ?thesis using r 3(1) mt mc by (auto simp: parse_psimps)
    next
      case True
      from r 3(1) mt True obtain right cur2 where
        a: "parseAndExpression sd ts cur1 = Inr (right, cur2)"
        and l: "parseOrExpression_loop sd ts (BinaryExpression expr BinOp_OR right) cur2 = Inr (e, c)"
        by (auto simp: parse_psimps split: sum.splits prod.splits)
      have "cur1 \<le> cur2" using 3(2) [OF mt refl True] a by blast
      moreover have "cur2 \<le> c" using 3(3) [OF mt refl True a refl] l by blast
      ultimately show ?thesis using mc True by simp
    qed
  qed
next
  case (4 sd ts cur)
  show ?case
  proof (intro allI impI)
    fix e c
    assume r: "parseAndExpression sd ts cur = Inr (e, c)"
    from r 4(1) obtain expr cur1 where
      a: "parseEqualityExpression sd ts cur = Inr (expr, cur1)"
      and l: "parseAndExpression_loop sd ts expr cur1 = Inr (e, c)"
      by (auto simp: parse_psimps split: sum.splits prod.splits)
    have "cur \<le> cur1" using 4(2) a by blast
    moreover have "cur1 \<le> c" using 4(3) [OF a refl] l by blast
    ultimately show "cur \<le> c" by simp
  qed
next
  case (5 sd ts expr cur)
  show ?case
  proof (intro allI impI)
    fix e c
    assume r: "parseAndExpression_loop sd ts expr cur = Inr (e, c)"
    obtain m cur1 where mt: "match ts AND cur = Inr (m, cur1)"
      using r 5(1) by (auto simp: parse_psimps split: sum.splits prod.splits)
    note mc = match_cur [OF mt]
    show "cur \<le> c"
    proof (cases m)
      case False
      then show ?thesis using r 5(1) mt mc by (auto simp: parse_psimps)
    next
      case True
      from r 5(1) mt True obtain right cur2 where
        a: "parseEqualityExpression sd ts cur1 = Inr (right, cur2)"
        and l: "parseAndExpression_loop sd ts (BinaryExpression expr BinOp_AND right) cur2 = Inr (e, c)"
        by (auto simp: parse_psimps split: sum.splits prod.splits)
      have "cur1 \<le> cur2" using 5(2) [OF mt refl True] a by blast
      moreover have "cur2 \<le> c" using 5(3) [OF mt refl True a refl] l by blast
      ultimately show ?thesis using mc True by simp
    qed
  qed
next
  case (6 sd ts cur)
  show ?case
  proof (intro allI impI)
    fix e c
    assume r: "parseEqualityExpression sd ts cur = Inr (e, c)"
    from r 6(1) obtain expr cur1 where
      a: "parseComparisonExpression sd ts cur = Inr (expr, cur1)"
      and l: "parseEqualityExpression_loop sd ts expr cur1 = Inr (e, c)"
      by (auto simp: parse_psimps split: sum.splits prod.splits)
    have "cur \<le> cur1" using 6(2) a by blast
    moreover have "cur1 \<le> c" using 6(3) [OF a refl] l by blast
    ultimately show "cur \<le> c" by simp
  qed
next
  case (7 sd ts expr cur)
  show ?case
  proof (intro allI impI)
    fix e c
    assume r: "parseEqualityExpression_loop sd ts expr cur = Inr (e, c)"
    obtain m cur1 where mt: "match_types ts [NOT_EQUAL, EQUAL] cur = Inr (m, cur1)"
      using r 7(1) by (auto simp: parse_psimps split: sum.splits prod.splits)
    note mc = match_types_cur [OF mt]
    show "cur \<le> c"
    proof (cases m)
      case False
      then show ?thesis using r 7(1) mt mc by (auto simp: parse_psimps)
    next
      case True
      from r 7(1) mt True obtain p where pv: "previous ts cur1 = Inr p"
        by (auto simp: parse_psimps split: sum.splits prod.splits)
      from r 7(1) mt True pv obtain right cur2 where
        a: "parseComparisonExpression sd ts cur1 = Inr (right, cur2)"
        and l: "parseEqualityExpression_loop sd ts (BinaryExpression expr (if tok_type p = EQUAL then BinOp_EQUAL else BinOp_NOT_EQUAL) right) cur2 = Inr (e, c)"
        by (auto simp: parse_psimps split: sum.splits prod.splits)
      have "cur1 \<le> cur2" using 7(2) [OF mt refl True pv] a by blast
      moreover have "cur2 \<le> c" using 7(3) [OF mt refl True pv a refl] l by blast
      ultimately show ?thesis using mc True by simp
    qed
  qed
next
  case (8 sd ts cur)
  show ?case
  proof (intro allI impI)
    fix e c
    assume r: "parseComparisonExpression sd ts cur = Inr (e, c)"
    from r 8(1) obtain expr cur1 where
      a: "parseTermExpression sd ts cur = Inr (expr, cur1)"
      and l: "parseComparisonExpression_loop sd ts expr cur1 = Inr (e, c)"
      by (auto simp: parse_psimps split: sum.splits prod.splits)
    have "cur \<le> cur1" using 8(2) a by blast
    moreover have "cur1 \<le> c" using 8(3) [OF a refl] l by blast
    ultimately show "cur \<le> c" by simp
  qed
next
  case (9 sd ts expr cur)
  show ?case
  proof (intro allI impI)
    fix e c
    assume r: "parseComparisonExpression_loop sd ts expr cur = Inr (e, c)"
    obtain m cur1 where mt: "match_types ts [GREATER_THAN, GREATER_EQUAL, LESS_THAN, LESS_EQUAL] cur = Inr (m, cur1)"
      using r 9(1) by (auto simp: parse_psimps split: sum.splits prod.splits)
    note mc = match_types_cur [OF mt]
    show "cur \<le> c"
    proof (cases m)
      case False
      then show ?thesis using r 9(1) mt mc by (auto simp: parse_psimps)
    next
      case True
      from r 9(1) mt True obtain p where pv: "previous ts cur1 = Inr p"
        by (auto simp: parse_psimps split: sum.splits prod.splits)
      from r 9(1) mt True pv obtain right cur2 where
        a: "parseTermExpression sd ts cur1 = Inr (right, cur2)"
        and l: "parseComparisonExpression_loop sd ts (BinaryExpression expr (if tok_type p = GREATER_THAN then BinOp_GREATER_THAN
                               else if tok_type p = GREATER_EQUAL then BinOp_GREATER_EQUAL
                               else if tok_type p = LESS_THAN then BinOp_LESS_THAN
                               else if tok_type p = LESS_EQUAL then BinOp_LESS_EQUAL
                               else BinOp_EQUAL) right) cur2 = Inr (e, c)"
        by (auto simp: parse_psimps split: sum.splits prod.splits)
      have "cur1 \<le> cur2" using 9(2) [OF mt refl True pv] a by blast
      moreover have "cur2 \<le> c" using 9(3) [OF mt refl True pv a refl] l by blast
      ultimately show ?thesis using mc True by simp
    qed
  qed
next
  case (10 sd ts cur)
  show ?case
  proof (intro allI impI)
    fix e c
    assume r: "parseTermExpression sd ts cur = Inr (e, c)"
    from r 10(1) obtain expr cur1 where
      a: "parseFactorExpression sd ts cur = Inr (expr, cur1)"
      and l: "parseTermExpression_loop sd ts expr cur1 = Inr (e, c)"
      by (auto simp: parse_psimps split: sum.splits prod.splits)
    have "cur \<le> cur1" using 10(2) a by blast
    moreover have "cur1 \<le> c" using 10(3) [OF a refl] l by blast
    ultimately show "cur \<le> c" by simp
  qed
next
  case (11 sd ts expr cur)
  show ?case
  proof (intro allI impI)
    fix e c
    assume r: "parseTermExpression_loop sd ts expr cur = Inr (e, c)"
    obtain m cur1 where mt: "match_types ts [MINUS, PLUS] cur = Inr (m, cur1)"
      using r 11(1) by (auto simp: parse_psimps split: sum.splits prod.splits)
    note mc = match_types_cur [OF mt]
    show "cur \<le> c"
    proof (cases m)
      case False
      then show ?thesis using r 11(1) mt mc by (auto simp: parse_psimps)
    next
      case True
      from r 11(1) mt True obtain p where pv: "previous ts cur1 = Inr p"
        by (auto simp: parse_psimps split: sum.splits prod.splits)
      from r 11(1) mt True pv obtain right cur2 where
        a: "parseFactorExpression sd ts cur1 = Inr (right, cur2)"
        and l: "parseTermExpression_loop sd ts (BinaryExpression expr (if tok_type p = PLUS then BinOp_ADD else BinOp_SUBTRACT) right) cur2 = Inr (e, c)"
        by (auto simp: parse_psimps split: sum.splits prod.splits)
      have "cur1 \<le> cur2" using 11(2) [OF mt refl True pv] a by blast
      moreover have "cur2 \<le> c" using 11(3) [OF mt refl True pv a refl] l by blast
      ultimately show ?thesis using mc True by simp
    qed
  qed
next
  case (12 sd ts cur)
  show ?case
  proof (intro allI impI)
    fix e c
    assume r: "parseFactorExpression sd ts cur = Inr (e, c)"
    from r 12(1) obtain expr cur1 where
      a: "parseUnaryExpression sd ts cur = Inr (expr, cur1)"
      and l: "parseFactorExpression_loop sd ts expr cur1 = Inr (e, c)"
      by (auto simp: parse_psimps split: sum.splits prod.splits)
    have "cur \<le> cur1" using 12(2) a by blast
    moreover have "cur1 \<le> c" using 12(3) [OF a refl] l by blast
    ultimately show "cur \<le> c" by simp
  qed
next
  case (13 sd ts expr cur)
  show ?case
  proof (intro allI impI)
    fix e c
    assume r: "parseFactorExpression_loop sd ts expr cur = Inr (e, c)"
    obtain m cur1 where mt: "match_types ts [DIVIDE, MULTIPLY] cur = Inr (m, cur1)"
      using r 13(1) by (auto simp: parse_psimps split: sum.splits prod.splits)
    note mc = match_types_cur [OF mt]
    show "cur \<le> c"
    proof (cases m)
      case False
      then show ?thesis using r 13(1) mt mc by (auto simp: parse_psimps)
    next
      case True
      from r 13(1) mt True obtain p where pv: "previous ts cur1 = Inr p"
        by (auto simp: parse_psimps split: sum.splits prod.splits)
      from r 13(1) mt True pv obtain right cur2 where
        a: "parseUnaryExpression sd ts cur1 = Inr (right, cur2)"
        and l: "parseFactorExpression_loop sd ts (BinaryExpression expr (if tok_type p = MULTIPLY then BinOp_MULTIPLY else BinOp_DIVIDE) right) cur2 = Inr (e, c)"
        by (auto simp: parse_psimps split: sum.splits prod.splits)
      have "cur1 \<le> cur2" using 13(2) [OF mt refl True pv] a by blast
      moreover have "cur2 \<le> c" using 13(3) [OF mt refl True pv a refl] l by blast
      ultimately show ?thesis using mc True by simp
    qed
  qed
next
  case (14 sd ts cur)
  show ?case
  proof (intro allI impI)
    fix e c
    assume r: "parseUnaryExpression sd ts cur = Inr (e, c)"
    obtain m cur1 where mt: "match_types ts [NOT, MINUS] cur = Inr (m, cur1)"
      using r 14(1) by (auto simp: parse_psimps split: sum.splits prod.splits)
    note mc = match_types_cur [OF mt]
    show "cur \<le> c"
    proof (cases m)
      case False
      have "parsePrimaryExpression sd ts cur1 = Inr (e, c)"
        using r 14(1) mt False by (auto simp: parse_psimps)
      then have "cur1 \<le> c" using 14(3) [OF mt refl False] by blast
      then show ?thesis using mc False by simp
    next
      case True
      from r 14(1) mt True obtain p where pv: "previous ts cur1 = Inr p"
        by (auto simp: parse_psimps split: sum.splits prod.splits)
      from r 14(1) mt True pv obtain expr where
        a: "parseUnaryExpression sd ts cur1 = Inr (expr, c)"
        by (auto simp: parse_psimps split: sum.splits prod.splits)
      have "cur1 \<le> c" using 14(2) [OF mt refl True pv] a by blast
      then show ?thesis using mc True by simp
    qed
  qed
next
  case (15 sd ts cur)
  show ?case
  proof (intro allI impI)
    fix e c
    assume r: "parsePrimaryExpression sd ts cur = Inr (e, c)"
    obtain m1 cur1 where t1: "match_types ts [TRUE, FALSE] cur = Inr (m1, cur1)"
      using r 15(1) by (auto simp: parse_psimps split: sum.splits prod.splits)
    note c1 = match_types_cur [OF t1]
    show "cur \<le> c"
    proof (cases m1)
      case True
      then show ?thesis
        using r 15(1) t1 c1 by (auto simp: parse_psimps split: sum.splits)
    next
      case n1: False
      obtain m2 cur2 where t2: "match ts NULL_KW cur1 = Inr (m2, cur2)"
        using r 15(1) t1 n1 by (auto simp: parse_psimps split: sum.splits prod.splits)
      note c2 = match_cur [OF t2]
      show ?thesis
      proof (cases m2)
        case True
        then show ?thesis
          using r 15(1) t1 n1 t2 c1 c2 by (auto simp: parse_psimps split: sum.splits)
      next
        case n2: False
        obtain m3 cur3 where
          t3: "match_types ts [INTEGER_LITERAL, REAL_LITERAL, STRING_LITERAL] cur2 = Inr (m3, cur3)"
          using r 15(1) t1 n1 t2 n2 by (auto simp: parse_psimps split: sum.splits prod.splits)
        note c3 = match_types_cur [OF t3]
        show ?thesis
        proof (cases m3)
          case True
          then show ?thesis
            using r 15(1) t1 n1 t2 n2 t3 c1 c2 c3
            by (auto simp: parse_psimps split: sum.splits)
        next
          case n3: False
          obtain m4 cur4 where t4: "match ts IDENTIFIER cur3 = Inr (m4, cur4)"
            using r 15(1) t1 n1 t2 n2 t3 n3
            by (auto simp: parse_psimps split: sum.splits prod.splits)
          note c4 = match_cur [OF t4]
          show ?thesis
          proof (cases m4)
            case True
            from r 15(1) t1 n1 t2 n2 t3 n3 t4 True obtain p where
              pv: "previous ts cur4 = Inr p"
              by (auto simp: parse_psimps split: sum.splits prod.splits)
            from r 15(1) t1 n1 t2 n2 t3 n3 t4 True pv obtain m5 cur5 where
              t5: "match ts DOT cur4 = Inr (m5, cur5)"
              by (auto simp: parse_psimps split: sum.splits prod.splits)
            note c5 = match_cur [OF t5]
            show ?thesis
            proof (cases m5)
              case False
              then show ?thesis
                using r 15(1) t1 n1 t2 n2 t3 n3 t4 True pv t5 c1 c2 c3 c4 c5
                by (auto simp: parse_psimps split: sum.splits)
            next
              case d: True
              from r 15(1) t1 n1 t2 n2 t3 n3 t4 True pv t5 d obtain cur6 where
                t6: "consume ts IDENTIFIER (''Expected column name after '.'' @ [CHR 0x27]) cur5
                       = Inr cur6" and "c = cur6"
                by (auto simp: parse_psimps split: sum.splits prod.splits)
              then show ?thesis
                using consume_cur [OF t6] c1 c2 c3 c4 c5 n1 n2 n3 True d by simp
            qed
          next
            case n4: False
            obtain m6 cur6 where t6: "match ts LEFT_PAREN cur4 = Inr (m6, cur6)"
              using r 15(1) t1 n1 t2 n2 t3 n3 t4 n4
              by (auto simp: parse_psimps split: sum.splits prod.splits)
            note c6 = match_cur [OF t6]
            show ?thesis
            proof (cases m6)
              case False
              then show ?thesis
                using r 15(1) t1 n1 t2 n2 t3 n3 t4 n4 t6
                by (auto simp: parse_psimps split: sum.splits)
            next
              case True
              from r 15(1) t1 n1 t2 n2 t3 n3 t4 n4 t6 True obtain expr cur7 where
                a: "parseExpression sd ts cur6 = Inr (expr, cur7)"
                by (auto simp: parse_psimps split: sum.splits prod.splits)
              from r 15(1) t1 n1 t2 n2 t3 n3 t4 n4 t6 True a obtain cur8 where
                t8: "consume ts RIGHT_PAREN ''Expected ')' after expression'' cur7 = Inr cur8"
                and "c = cur8"
                by (auto simp: parse_psimps split: sum.splits prod.splits)
              have "cur6 \<le> cur7"
                using 15(2) [OF t1 refl n1 t2 refl n2 t3 refl n3 t4 refl n4 t6 refl True] a
                by blast
              then show ?thesis
                using consume_cur [OF t8] \<open>c = cur8\<close> c1 c2 c3 c4 c6 n1 n2 n3 n4 True by simp
            qed
          qed
        qed
      qed
    qed
  qed
qed

termination parseExpression
  by (relation "measure (case_sum (case_sum (case_sum (\<lambda>(sd, ts, cur). (length ts - cur) * 16 + 15) (case_sum (\<lambda>(sd, ts, cur). (length ts - cur) * 16 + 14) (\<lambda>(sd, ts, expr, cur). (length ts - cur) * 16 + 13))) (case_sum (case_sum (\<lambda>(sd, ts, cur). (length ts - cur) * 16 + 12) (\<lambda>(sd, ts, expr, cur). (length ts - cur) * 16 + 11)) (case_sum (\<lambda>(sd, ts, cur). (length ts - cur) * 16 + 10) (\<lambda>(sd, ts, expr, cur). (length ts - cur) * 16 + 9)))) (case_sum (case_sum (case_sum (\<lambda>(sd, ts, cur). (length ts - cur) * 16 + 8) (\<lambda>(sd, ts, expr, cur). (length ts - cur) * 16 + 7)) (case_sum (\<lambda>(sd, ts, cur). (length ts - cur) * 16 + 6) (\<lambda>(sd, ts, expr, cur). (length ts - cur) * 16 + 5))) (case_sum (case_sum (\<lambda>(sd, ts, cur). (length ts - cur) * 16 + 4) (\<lambda>(sd, ts, expr, cur). (length ts - cur) * 16 + 3)) (case_sum (\<lambda>(sd, ts, cur). (length ts - cur) * 16 + 2) (\<lambda>(sd, ts, cur). (length ts - cur) * 16 + 1)))))")
     (auto dest!: match_cur match_types_cur parse_cursor_partial)

lemmas parse_induct = parseExpression_parseOrExpression_parseOrExpression_loop_parseAndExpression_parseAndExpression_loop_parseEqualityExpression_parseEqualityExpression_loop_parseComparisonExpression_parseComparisonExpression_loop_parseTermExpression_parseTermExpression_loop_parseFactorExpression_parseFactorExpression_loop_parseUnaryExpression_parsePrimaryExpression.induct

lemmas parse_simps = parseExpression.simps parseOrExpression.simps parseOrExpression_loop.simps parseAndExpression.simps parseAndExpression_loop.simps parseEqualityExpression.simps parseEqualityExpression_loop.simps parseComparisonExpression.simps parseComparisonExpression_loop.simps parseTermExpression.simps parseTermExpression_loop.simps parseFactorExpression.simps parseFactorExpression_loop.simps parseUnaryExpression.simps parsePrimaryExpression.simps

declare parse_simps [simp del]

lemma parse_cursor:
  "\<forall>e c. parseExpression sd ts cur = Inr (e, c) \<longrightarrow> cur \<le> c"
  "\<forall>e c. parseOrExpression sd ts cur = Inr (e, c) \<longrightarrow> cur \<le> c"
  "\<forall>e c. parseOrExpression_loop sd ts expr cur = Inr (e, c) \<longrightarrow> cur \<le> c"
  "\<forall>e c. parseAndExpression sd ts cur = Inr (e, c) \<longrightarrow> cur \<le> c"
  "\<forall>e c. parseAndExpression_loop sd ts expr cur = Inr (e, c) \<longrightarrow> cur \<le> c"
  "\<forall>e c. parseEqualityExpression sd ts cur = Inr (e, c) \<longrightarrow> cur \<le> c"
  "\<forall>e c. parseEqualityExpression_loop sd ts expr cur = Inr (e, c) \<longrightarrow> cur \<le> c"
  "\<forall>e c. parseComparisonExpression sd ts cur = Inr (e, c) \<longrightarrow> cur \<le> c"
  "\<forall>e c. parseComparisonExpression_loop sd ts expr cur = Inr (e, c) \<longrightarrow> cur \<le> c"
  "\<forall>e c. parseTermExpression sd ts cur = Inr (e, c) \<longrightarrow> cur \<le> c"
  "\<forall>e c. parseTermExpression_loop sd ts expr cur = Inr (e, c) \<longrightarrow> cur \<le> c"
  "\<forall>e c. parseFactorExpression sd ts cur = Inr (e, c) \<longrightarrow> cur \<le> c"
  "\<forall>e c. parseFactorExpression_loop sd ts expr cur = Inr (e, c) \<longrightarrow> cur \<le> c"
  "\<forall>e c. parseUnaryExpression sd ts cur = Inr (e, c) \<longrightarrow> cur \<le> c"
  "\<forall>e c. parsePrimaryExpression sd ts cur = Inr (e, c) \<longrightarrow> cur \<le> c"
proof (induct sd ts cur and sd ts cur and sd ts expr cur and sd ts cur and sd ts expr cur and sd ts cur and sd ts expr cur and sd ts cur and sd ts expr cur and sd ts cur and sd ts expr cur and sd ts cur and sd ts expr cur and sd ts cur and sd ts cur rule: parse_induct)
  case (1 sd ts cur)
  show ?case by (subst parseExpression.simps) (rule 1)
next
  case (2 sd ts cur)
  show ?case
  proof (intro allI impI)
    fix e c
    assume r: "parseOrExpression sd ts cur = Inr (e, c)"
    from r obtain expr cur1 where
      a: "parseAndExpression sd ts cur = Inr (expr, cur1)"
      and l: "parseOrExpression_loop sd ts expr cur1 = Inr (e, c)"
      by (auto simp: parseOrExpression.simps [of sd ts cur] split: sum.splits prod.splits)
    have "cur \<le> cur1" using 2(1) a by blast
    moreover have "cur1 \<le> c" using 2(2) [OF a refl] l by blast
    ultimately show "cur \<le> c" by simp
  qed
next
  case (3 sd ts expr cur)
  show ?case
  proof (intro allI impI)
    fix e c
    assume r: "parseOrExpression_loop sd ts expr cur = Inr (e, c)"
    obtain m cur1 where mt: "match ts OR cur = Inr (m, cur1)"
      using r by (auto simp: parseOrExpression_loop.simps [of sd ts expr cur] split: sum.splits prod.splits)
    note mc = match_cur [OF mt]
    show "cur \<le> c"
    proof (cases m)
      case False
      then show ?thesis using r mt mc by (auto simp: parseOrExpression_loop.simps [of sd ts expr cur])
    next
      case True
      from r mt True obtain right cur2 where
        a: "parseAndExpression sd ts cur1 = Inr (right, cur2)"
        and l: "parseOrExpression_loop sd ts (BinaryExpression expr BinOp_OR right) cur2 = Inr (e, c)"
        by (auto simp: parseOrExpression_loop.simps [of sd ts expr cur] split: sum.splits prod.splits)
      have "cur1 \<le> cur2" using 3(1) [OF mt refl True] a by blast
      moreover have "cur2 \<le> c" using 3(2) [OF mt refl True a refl] l by blast
      ultimately show ?thesis using mc True by simp
    qed
  qed
next
  case (4 sd ts cur)
  show ?case
  proof (intro allI impI)
    fix e c
    assume r: "parseAndExpression sd ts cur = Inr (e, c)"
    from r obtain expr cur1 where
      a: "parseEqualityExpression sd ts cur = Inr (expr, cur1)"
      and l: "parseAndExpression_loop sd ts expr cur1 = Inr (e, c)"
      by (auto simp: parseAndExpression.simps [of sd ts cur] split: sum.splits prod.splits)
    have "cur \<le> cur1" using 4(1) a by blast
    moreover have "cur1 \<le> c" using 4(2) [OF a refl] l by blast
    ultimately show "cur \<le> c" by simp
  qed
next
  case (5 sd ts expr cur)
  show ?case
  proof (intro allI impI)
    fix e c
    assume r: "parseAndExpression_loop sd ts expr cur = Inr (e, c)"
    obtain m cur1 where mt: "match ts AND cur = Inr (m, cur1)"
      using r by (auto simp: parseAndExpression_loop.simps [of sd ts expr cur] split: sum.splits prod.splits)
    note mc = match_cur [OF mt]
    show "cur \<le> c"
    proof (cases m)
      case False
      then show ?thesis using r mt mc by (auto simp: parseAndExpression_loop.simps [of sd ts expr cur])
    next
      case True
      from r mt True obtain right cur2 where
        a: "parseEqualityExpression sd ts cur1 = Inr (right, cur2)"
        and l: "parseAndExpression_loop sd ts (BinaryExpression expr BinOp_AND right) cur2 = Inr (e, c)"
        by (auto simp: parseAndExpression_loop.simps [of sd ts expr cur] split: sum.splits prod.splits)
      have "cur1 \<le> cur2" using 5(1) [OF mt refl True] a by blast
      moreover have "cur2 \<le> c" using 5(2) [OF mt refl True a refl] l by blast
      ultimately show ?thesis using mc True by simp
    qed
  qed
next
  case (6 sd ts cur)
  show ?case
  proof (intro allI impI)
    fix e c
    assume r: "parseEqualityExpression sd ts cur = Inr (e, c)"
    from r obtain expr cur1 where
      a: "parseComparisonExpression sd ts cur = Inr (expr, cur1)"
      and l: "parseEqualityExpression_loop sd ts expr cur1 = Inr (e, c)"
      by (auto simp: parseEqualityExpression.simps [of sd ts cur] split: sum.splits prod.splits)
    have "cur \<le> cur1" using 6(1) a by blast
    moreover have "cur1 \<le> c" using 6(2) [OF a refl] l by blast
    ultimately show "cur \<le> c" by simp
  qed
next
  case (7 sd ts expr cur)
  show ?case
  proof (intro allI impI)
    fix e c
    assume r: "parseEqualityExpression_loop sd ts expr cur = Inr (e, c)"
    obtain m cur1 where mt: "match_types ts [NOT_EQUAL, EQUAL] cur = Inr (m, cur1)"
      using r by (auto simp: parseEqualityExpression_loop.simps [of sd ts expr cur] split: sum.splits prod.splits)
    note mc = match_types_cur [OF mt]
    show "cur \<le> c"
    proof (cases m)
      case False
      then show ?thesis using r mt mc by (auto simp: parseEqualityExpression_loop.simps [of sd ts expr cur])
    next
      case True
      from r mt True obtain p where pv: "previous ts cur1 = Inr p"
        by (auto simp: parseEqualityExpression_loop.simps [of sd ts expr cur] split: sum.splits prod.splits)
      from r mt True pv obtain right cur2 where
        a: "parseComparisonExpression sd ts cur1 = Inr (right, cur2)"
        and l: "parseEqualityExpression_loop sd ts (BinaryExpression expr (if tok_type p = EQUAL then BinOp_EQUAL else BinOp_NOT_EQUAL) right) cur2 = Inr (e, c)"
        by (auto simp: parseEqualityExpression_loop.simps [of sd ts expr cur] split: sum.splits prod.splits)
      have "cur1 \<le> cur2" using 7(1) [OF mt refl True pv] a by blast
      moreover have "cur2 \<le> c" using 7(2) [OF mt refl True pv a refl] l by blast
      ultimately show ?thesis using mc True by simp
    qed
  qed
next
  case (8 sd ts cur)
  show ?case
  proof (intro allI impI)
    fix e c
    assume r: "parseComparisonExpression sd ts cur = Inr (e, c)"
    from r obtain expr cur1 where
      a: "parseTermExpression sd ts cur = Inr (expr, cur1)"
      and l: "parseComparisonExpression_loop sd ts expr cur1 = Inr (e, c)"
      by (auto simp: parseComparisonExpression.simps [of sd ts cur] split: sum.splits prod.splits)
    have "cur \<le> cur1" using 8(1) a by blast
    moreover have "cur1 \<le> c" using 8(2) [OF a refl] l by blast
    ultimately show "cur \<le> c" by simp
  qed
next
  case (9 sd ts expr cur)
  show ?case
  proof (intro allI impI)
    fix e c
    assume r: "parseComparisonExpression_loop sd ts expr cur = Inr (e, c)"
    obtain m cur1 where mt: "match_types ts [GREATER_THAN, GREATER_EQUAL, LESS_THAN, LESS_EQUAL] cur = Inr (m, cur1)"
      using r by (auto simp: parseComparisonExpression_loop.simps [of sd ts expr cur] split: sum.splits prod.splits)
    note mc = match_types_cur [OF mt]
    show "cur \<le> c"
    proof (cases m)
      case False
      then show ?thesis using r mt mc by (auto simp: parseComparisonExpression_loop.simps [of sd ts expr cur])
    next
      case True
      from r mt True obtain p where pv: "previous ts cur1 = Inr p"
        by (auto simp: parseComparisonExpression_loop.simps [of sd ts expr cur] split: sum.splits prod.splits)
      from r mt True pv obtain right cur2 where
        a: "parseTermExpression sd ts cur1 = Inr (right, cur2)"
        and l: "parseComparisonExpression_loop sd ts (BinaryExpression expr (if tok_type p = GREATER_THAN then BinOp_GREATER_THAN
                               else if tok_type p = GREATER_EQUAL then BinOp_GREATER_EQUAL
                               else if tok_type p = LESS_THAN then BinOp_LESS_THAN
                               else if tok_type p = LESS_EQUAL then BinOp_LESS_EQUAL
                               else BinOp_EQUAL) right) cur2 = Inr (e, c)"
        by (auto simp: parseComparisonExpression_loop.simps [of sd ts expr cur] split: sum.splits prod.splits)
      have "cur1 \<le> cur2" using 9(1) [OF mt refl True pv] a by blast
      moreover have "cur2 \<le> c" using 9(2) [OF mt refl True pv a refl] l by blast
      ultimately show ?thesis using mc True by simp
    qed
  qed
next
  case (10 sd ts cur)
  show ?case
  proof (intro allI impI)
    fix e c
    assume r: "parseTermExpression sd ts cur = Inr (e, c)"
    from r obtain expr cur1 where
      a: "parseFactorExpression sd ts cur = Inr (expr, cur1)"
      and l: "parseTermExpression_loop sd ts expr cur1 = Inr (e, c)"
      by (auto simp: parseTermExpression.simps [of sd ts cur] split: sum.splits prod.splits)
    have "cur \<le> cur1" using 10(1) a by blast
    moreover have "cur1 \<le> c" using 10(2) [OF a refl] l by blast
    ultimately show "cur \<le> c" by simp
  qed
next
  case (11 sd ts expr cur)
  show ?case
  proof (intro allI impI)
    fix e c
    assume r: "parseTermExpression_loop sd ts expr cur = Inr (e, c)"
    obtain m cur1 where mt: "match_types ts [MINUS, PLUS] cur = Inr (m, cur1)"
      using r by (auto simp: parseTermExpression_loop.simps [of sd ts expr cur] split: sum.splits prod.splits)
    note mc = match_types_cur [OF mt]
    show "cur \<le> c"
    proof (cases m)
      case False
      then show ?thesis using r mt mc by (auto simp: parseTermExpression_loop.simps [of sd ts expr cur])
    next
      case True
      from r mt True obtain p where pv: "previous ts cur1 = Inr p"
        by (auto simp: parseTermExpression_loop.simps [of sd ts expr cur] split: sum.splits prod.splits)
      from r mt True pv obtain right cur2 where
        a: "parseFactorExpression sd ts cur1 = Inr (right, cur2)"
        and l: "parseTermExpression_loop sd ts (BinaryExpression expr (if tok_type p = PLUS then BinOp_ADD else BinOp_SUBTRACT) right) cur2 = Inr (e, c)"
        by (auto simp: parseTermExpression_loop.simps [of sd ts expr cur] split: sum.splits prod.splits)
      have "cur1 \<le> cur2" using 11(1) [OF mt refl True pv] a by blast
      moreover have "cur2 \<le> c" using 11(2) [OF mt refl True pv a refl] l by blast
      ultimately show ?thesis using mc True by simp
    qed
  qed
next
  case (12 sd ts cur)
  show ?case
  proof (intro allI impI)
    fix e c
    assume r: "parseFactorExpression sd ts cur = Inr (e, c)"
    from r obtain expr cur1 where
      a: "parseUnaryExpression sd ts cur = Inr (expr, cur1)"
      and l: "parseFactorExpression_loop sd ts expr cur1 = Inr (e, c)"
      by (auto simp: parseFactorExpression.simps [of sd ts cur] split: sum.splits prod.splits)
    have "cur \<le> cur1" using 12(1) a by blast
    moreover have "cur1 \<le> c" using 12(2) [OF a refl] l by blast
    ultimately show "cur \<le> c" by simp
  qed
next
  case (13 sd ts expr cur)
  show ?case
  proof (intro allI impI)
    fix e c
    assume r: "parseFactorExpression_loop sd ts expr cur = Inr (e, c)"
    obtain m cur1 where mt: "match_types ts [DIVIDE, MULTIPLY] cur = Inr (m, cur1)"
      using r by (auto simp: parseFactorExpression_loop.simps [of sd ts expr cur] split: sum.splits prod.splits)
    note mc = match_types_cur [OF mt]
    show "cur \<le> c"
    proof (cases m)
      case False
      then show ?thesis using r mt mc by (auto simp: parseFactorExpression_loop.simps [of sd ts expr cur])
    next
      case True
      from r mt True obtain p where pv: "previous ts cur1 = Inr p"
        by (auto simp: parseFactorExpression_loop.simps [of sd ts expr cur] split: sum.splits prod.splits)
      from r mt True pv obtain right cur2 where
        a: "parseUnaryExpression sd ts cur1 = Inr (right, cur2)"
        and l: "parseFactorExpression_loop sd ts (BinaryExpression expr (if tok_type p = MULTIPLY then BinOp_MULTIPLY else BinOp_DIVIDE) right) cur2 = Inr (e, c)"
        by (auto simp: parseFactorExpression_loop.simps [of sd ts expr cur] split: sum.splits prod.splits)
      have "cur1 \<le> cur2" using 13(1) [OF mt refl True pv] a by blast
      moreover have "cur2 \<le> c" using 13(2) [OF mt refl True pv a refl] l by blast
      ultimately show ?thesis using mc True by simp
    qed
  qed
next
  case (14 sd ts cur)
  show ?case
  proof (intro allI impI)
    fix e c
    assume r: "parseUnaryExpression sd ts cur = Inr (e, c)"
    obtain m cur1 where mt: "match_types ts [NOT, MINUS] cur = Inr (m, cur1)"
      using r by (auto simp: parseUnaryExpression.simps [of sd ts cur] split: sum.splits prod.splits)
    note mc = match_types_cur [OF mt]
    show "cur \<le> c"
    proof (cases m)
      case False
      have "parsePrimaryExpression sd ts cur1 = Inr (e, c)"
        using r mt False by (auto simp: parseUnaryExpression.simps [of sd ts cur])
      then have "cur1 \<le> c" using 14(2) [OF mt refl False] by blast
      then show ?thesis using mc False by simp
    next
      case True
      from r mt True obtain p where pv: "previous ts cur1 = Inr p"
        by (auto simp: parseUnaryExpression.simps [of sd ts cur] split: sum.splits prod.splits)
      from r mt True pv obtain expr where
        a: "parseUnaryExpression sd ts cur1 = Inr (expr, c)"
        by (auto simp: parseUnaryExpression.simps [of sd ts cur] split: sum.splits prod.splits)
      have "cur1 \<le> c" using 14(1) [OF mt refl True pv] a by blast
      then show ?thesis using mc True by simp
    qed
  qed
next
  case (15 sd ts cur)
  show ?case
  proof (intro allI impI)
    fix e c
    assume r: "parsePrimaryExpression sd ts cur = Inr (e, c)"
    obtain m1 cur1 where t1: "match_types ts [TRUE, FALSE] cur = Inr (m1, cur1)"
      using r by (auto simp: parsePrimaryExpression.simps [of sd ts cur] split: sum.splits prod.splits)
    note c1 = match_types_cur [OF t1]
    show "cur \<le> c"
    proof (cases m1)
      case True
      then show ?thesis
        using r t1 c1 by (auto simp: parsePrimaryExpression.simps [of sd ts cur] split: sum.splits)
    next
      case n1: False
      obtain m2 cur2 where t2: "match ts NULL_KW cur1 = Inr (m2, cur2)"
        using r t1 n1 by (auto simp: parsePrimaryExpression.simps [of sd ts cur] split: sum.splits prod.splits)
      note c2 = match_cur [OF t2]
      show ?thesis
      proof (cases m2)
        case True
        then show ?thesis
          using r t1 n1 t2 c1 c2 by (auto simp: parsePrimaryExpression.simps [of sd ts cur] split: sum.splits)
      next
        case n2: False
        obtain m3 cur3 where
          t3: "match_types ts [INTEGER_LITERAL, REAL_LITERAL, STRING_LITERAL] cur2 = Inr (m3, cur3)"
          using r t1 n1 t2 n2 by (auto simp: parsePrimaryExpression.simps [of sd ts cur] split: sum.splits prod.splits)
        note c3 = match_types_cur [OF t3]
        show ?thesis
        proof (cases m3)
          case True
          then show ?thesis
            using r t1 n1 t2 n2 t3 c1 c2 c3
            by (auto simp: parsePrimaryExpression.simps [of sd ts cur] split: sum.splits)
        next
          case n3: False
          obtain m4 cur4 where t4: "match ts IDENTIFIER cur3 = Inr (m4, cur4)"
            using r t1 n1 t2 n2 t3 n3
            by (auto simp: parsePrimaryExpression.simps [of sd ts cur] split: sum.splits prod.splits)
          note c4 = match_cur [OF t4]
          show ?thesis
          proof (cases m4)
            case True
            from r t1 n1 t2 n2 t3 n3 t4 True obtain p where
              pv: "previous ts cur4 = Inr p"
              by (auto simp: parsePrimaryExpression.simps [of sd ts cur] split: sum.splits prod.splits)
            from r t1 n1 t2 n2 t3 n3 t4 True pv obtain m5 cur5 where
              t5: "match ts DOT cur4 = Inr (m5, cur5)"
              by (auto simp: parsePrimaryExpression.simps [of sd ts cur] split: sum.splits prod.splits)
            note c5 = match_cur [OF t5]
            show ?thesis
            proof (cases m5)
              case False
              then show ?thesis
                using r t1 n1 t2 n2 t3 n3 t4 True pv t5 c1 c2 c3 c4 c5
                by (auto simp: parsePrimaryExpression.simps [of sd ts cur] split: sum.splits)
            next
              case d: True
              from r t1 n1 t2 n2 t3 n3 t4 True pv t5 d obtain cur6 where
                t6: "consume ts IDENTIFIER (''Expected column name after '.'' @ [CHR 0x27]) cur5
                       = Inr cur6" and "c = cur6"
                by (auto simp: parsePrimaryExpression.simps [of sd ts cur] split: sum.splits prod.splits)
              then show ?thesis
                using consume_cur [OF t6] c1 c2 c3 c4 c5 n1 n2 n3 True d by simp
            qed
          next
            case n4: False
            obtain m6 cur6 where t6: "match ts LEFT_PAREN cur4 = Inr (m6, cur6)"
              using r t1 n1 t2 n2 t3 n3 t4 n4
              by (auto simp: parsePrimaryExpression.simps [of sd ts cur] split: sum.splits prod.splits)
            note c6 = match_cur [OF t6]
            show ?thesis
            proof (cases m6)
              case False
              then show ?thesis
                using r t1 n1 t2 n2 t3 n3 t4 n4 t6
                by (auto simp: parsePrimaryExpression.simps [of sd ts cur] split: sum.splits)
            next
              case True
              from r t1 n1 t2 n2 t3 n3 t4 n4 t6 True obtain expr cur7 where
                a: "parseExpression sd ts cur6 = Inr (expr, cur7)"
                by (auto simp: parsePrimaryExpression.simps [of sd ts cur] split: sum.splits prod.splits)
              from r t1 n1 t2 n2 t3 n3 t4 n4 t6 True a obtain cur8 where
                t8: "consume ts RIGHT_PAREN ''Expected ')' after expression'' cur7 = Inr cur8"
                and "c = cur8"
                by (auto simp: parsePrimaryExpression.simps [of sd ts cur] split: sum.splits prod.splits)
              have "cur6 \<le> cur7"
                using 15(1) [OF t1 refl n1 t2 refl n2 t3 refl n3 t4 refl n4 t6 refl True] a
                by blast
              then show ?thesis
                using consume_cur [OF t8] \<open>c = cur8\<close> c1 c2 c3 c4 c6 n1 n2 n3 n4 True by simp
            qed
          qed
        qed
      qed
    qed
  qed
qed

subsection \<open>Statements\<close>

text \<open>The \<^verbatim>\<open>do ... while (match(TokenType::COMMA))\<close> loop over the select list.\<close>

function parseSelectList ::
  "(string \<Rightarrow> double option) \<Rightarrow> Token list \<Rightarrow> Expression list \<Rightarrow> nat
     \<Rightarrow> (Expression list \<times> nat) result" where
  "parseSelectList sd ts sl cur =
     (case match ts MULTIPLY cur of
        Inl f \<Rightarrow> Inl f
      | Inr (m, cur1) \<Rightarrow>
          (case (if m then Inr (ColumnExpression [] ''*'', cur1)
                 else parseExpression sd ts cur1) of
             Inl f \<Rightarrow> Inl f
           | Inr (expr, cur2) \<Rightarrow>
               (case match ts COMMA cur2 of
                  Inl f \<Rightarrow> Inl f
                | Inr (again, cur3) \<Rightarrow>
                    if again then parseSelectList sd ts (sl @ [expr]) cur3
                    else Inr (sl @ [expr], cur3))))"
  by pat_completeness auto
termination
proof (relation "measure (\<lambda>(sd, ts, sl, cur). length ts - cur)")
  fix sd ts sl cur x2 m cur1 x2a expr cur2 x2b again cur3
  assume a: "match ts MULTIPLY cur = Inr x2" "(m, cur1) = x2"
    "(if m then Inr (ColumnExpression [] ''*'', cur1) else parseExpression sd ts cur1) = Inr x2a"
    "(expr, cur2) = x2a" "match ts COMMA cur2 = Inr x2b" "(again, cur3) = x2b" "again"
  have 1: "cur \<le> cur1" using match_cur [of ts MULTIPLY cur m cur1] a(1,2) by auto
  have 2: "cur1 \<le> cur2"
    using a(3,4) parse_cursor(1) [of sd ts cur1] by (auto split: if_splits)
  have 3: "cur2 < length ts \<and> cur3 = Suc cur2"
    using match_cur [of ts COMMA cur2 again cur3] a(5,6,7) by auto
  show "((sd, ts, sl @ [expr], cur3), sd, ts, sl, cur)
          \<in> measure (\<lambda>(sd, ts, sl, cur). length ts - cur)"
    using 1 2 3 by auto
qed (rule wf_measure)

declare parseSelectList.simps [simp del]

text \<open>The loop over the names after \<^verbatim>\<open>ORDER BY\<close>.\<close>

function parseOrderByList ::
  "Token list \<Rightarrow> string list \<Rightarrow> nat \<Rightarrow> (string list \<times> nat) result" where
  "parseOrderByList ts ob cur =
     (case consume ts IDENTIFIER ''Expected column name in ORDER BY'' cur of
        Inl f \<Rightarrow> Inl f
      | Inr cur1 \<Rightarrow>
          (case previous ts cur1 of
             Inl f \<Rightarrow> Inl f
           | Inr p \<Rightarrow>
               (case match ts COMMA cur1 of
                  Inl f \<Rightarrow> Inl f
                | Inr (again, cur2) \<Rightarrow>
                    if again then parseOrderByList ts (ob @ [tok_value p]) cur2
                    else Inr (ob @ [tok_value p], cur2))))"
  by pat_completeness auto
termination
proof (relation "measure (\<lambda>(ts, ob, cur). length ts - cur)")
  fix ts ob cur cur1 p x2 again cur2
  assume a: "consume ts IDENTIFIER ''Expected column name in ORDER BY'' cur = Inr cur1"
    "previous ts cur1 = Inr p" "match ts COMMA cur1 = Inr x2" "(again, cur2) = x2" "again"
  have 1: "cur < length ts \<and> cur1 = Suc cur" using consume_cur [OF a(1)] .
  have 2: "cur2 = Suc cur1" using match_cur [of ts COMMA cur1 again cur2] a(3,4,5) by auto
  show "((ts, ob @ [tok_value p], cur2), ts, ob, cur)
          \<in> measure (\<lambda>(ts, ob, cur). length ts - cur)"
    using 1 2 by auto
qed (rule wf_measure)

declare parseOrderByList.simps [simp del]

text \<open>The three optional clauses of \<^verbatim>\<open>parseSelectStatement\<close>, each an
  \<^verbatim>\<open>if (match(...))\<close> block that updates \<^verbatim>\<open>stmt\<close>.\<close>

definition parseSelect_where ::
  "(string \<Rightarrow> double option) \<Rightarrow> Token list \<Rightarrow> SelectStatement \<Rightarrow> nat
     \<Rightarrow> (SelectStatement \<times> nat) result" where
  "parseSelect_where sd ts stmt cur =
     (case match ts WHERE cur of
        Inl f \<Rightarrow> Inl f
      | Inr (m, cur1) \<Rightarrow>
          if m
          then (case parseExpression sd ts cur1 of
                  Inl f \<Rightarrow> Inl f
                | Inr (expr, cur2) \<Rightarrow> Inr (stmt\<lparr>where_clause := Some expr\<rparr>, cur2))
          else Inr (stmt, cur1))"

definition parseSelect_order_by ::
  "Token list \<Rightarrow> SelectStatement \<Rightarrow> nat \<Rightarrow> (SelectStatement \<times> nat) result" where
  "parseSelect_order_by ts stmt cur =
     (case match ts ORDER cur of
        Inl f \<Rightarrow> Inl f
      | Inr (m, cur1) \<Rightarrow>
          if m
          then (case consume ts BY ''Expected 'BY' after ORDER'' cur1 of
                  Inl f \<Rightarrow> Inl f
                | Inr cur2 \<Rightarrow>
                    (case parseOrderByList ts (order_by stmt) cur2 of
                       Inl f \<Rightarrow> Inl f
                     | Inr (ob, cur3) \<Rightarrow>
                         (case match ts DESC cur3 of
                            Inl f \<Rightarrow> Inl f
                          | Inr (d, cur4) \<Rightarrow>
                              if d then Inr (stmt\<lparr>order_by := ob, order_desc := True\<rparr>, cur4)
                              else (case match ts ASC cur4 of
                                      Inl f \<Rightarrow> Inl f
                                    | Inr (a, cur5) \<Rightarrow> Inr (stmt\<lparr>order_by := ob\<rparr>, cur5)))))
          else Inr (stmt, cur1))"

definition parseSelect_limit ::
  "Token list \<Rightarrow> SelectStatement \<Rightarrow> nat \<Rightarrow> (SelectStatement \<times> nat) result" where
  "parseSelect_limit ts stmt cur =
     (case match ts LIMIT cur of
        Inl f \<Rightarrow> Inl f
      | Inr (m, cur1) \<Rightarrow>
          if m
          then (case consume ts INTEGER_LITERAL ''Expected number after LIMIT'' cur1 of
                  Inl f \<Rightarrow> Inl f
                | Inr cur2 \<Rightarrow>
                    (case previous ts cur2 of
                       Inl f \<Rightarrow> Inl f
                     | Inr p \<Rightarrow>
                         (case stoi (tok_value p) of
                            Inl f \<Rightarrow> Inl f
                          | Inr n \<Rightarrow> Inr (stmt\<lparr>limit := n\<rparr>, cur2))))
          else Inr (stmt, cur1))"

definition parseSelectStatement ::
  "(string \<Rightarrow> double option) \<Rightarrow> Token list \<Rightarrow> nat \<Rightarrow> (Statement \<times> nat) result" where
  "parseSelectStatement sd ts cur =
     (case parseSelectList sd ts [] cur of
        Inl f \<Rightarrow> Inl f
      | Inr (sl, cur1) \<Rightarrow>
          (case consume ts FROM ''Expected 'FROM' after SELECT list'' cur1 of
             Inl f \<Rightarrow> Inl f
           | Inr cur2 \<Rightarrow>
               (case consume ts IDENTIFIER ''Expected table name after FROM'' cur2 of
                  Inl f \<Rightarrow> Inl f
                | Inr cur3 \<Rightarrow>
                    (case previous ts cur3 of
                       Inl f \<Rightarrow> Inl f
                     | Inr p \<Rightarrow>
                         (case parseSelect_where sd ts
                                 (new_SelectStatement\<lparr>select_list := sl, from_table := tok_value p\<rparr>)
                                 cur3 of
                            Inl f \<Rightarrow> Inl f
                          | Inr (stmt1, cur4) \<Rightarrow>
                              (case parseSelect_order_by ts stmt1 cur4 of
                                 Inl f \<Rightarrow> Inl f
                               | Inr (stmt2, cur5) \<Rightarrow>
                                   (case parseSelect_limit ts stmt2 cur5 of
                                      Inl f \<Rightarrow> Inl f
                                    | Inr (stmt3, cur6) \<Rightarrow> Inr (Select stmt3, cur6))))))))"

text \<open>The loop over the column names of an INSERT.\<close>

function parseInsertColumns ::
  "Token list \<Rightarrow> string list \<Rightarrow> nat \<Rightarrow> (string list \<times> nat) result" where
  "parseInsertColumns ts cols cur =
     (case consume ts IDENTIFIER ''Expected column name'' cur of
        Inl f \<Rightarrow> Inl f
      | Inr cur1 \<Rightarrow>
          (case previous ts cur1 of
             Inl f \<Rightarrow> Inl f
           | Inr p \<Rightarrow>
               (case match ts COMMA cur1 of
                  Inl f \<Rightarrow> Inl f
                | Inr (again, cur2) \<Rightarrow>
                    if again then parseInsertColumns ts (cols @ [tok_value p]) cur2
                    else Inr (cols @ [tok_value p], cur2))))"
  by pat_completeness auto
termination
proof (relation "measure (\<lambda>(ts, cols, cur). length ts - cur)")
  fix ts cols cur cur1 p x2 again cur2
  assume a: "consume ts IDENTIFIER ''Expected column name'' cur = Inr cur1"
    "previous ts cur1 = Inr p" "match ts COMMA cur1 = Inr x2" "(again, cur2) = x2" "again"
  have 1: "cur < length ts \<and> cur1 = Suc cur" using consume_cur [OF a(1)] .
  have 2: "cur2 = Suc cur1" using match_cur [of ts COMMA cur1 again cur2] a(3,4,5) by auto
  show "((ts, cols @ [tok_value p], cur2), ts, cols, cur)
          \<in> measure (\<lambda>(ts, cols, cur). length ts - cur)"
    using 1 2 by auto
qed (rule wf_measure)

declare parseInsertColumns.simps [simp del]

text \<open>The inner loop over the expressions of one value list.\<close>

function parseValueList ::
  "(string \<Rightarrow> double option) \<Rightarrow> Token list \<Rightarrow> Expression list \<Rightarrow> nat
     \<Rightarrow> (Expression list \<times> nat) result" where
  "parseValueList sd ts vs cur =
     (case parseExpression sd ts cur of
        Inl f \<Rightarrow> Inl f
      | Inr (expr, cur1) \<Rightarrow>
          (case match ts COMMA cur1 of
             Inl f \<Rightarrow> Inl f
           | Inr (again, cur2) \<Rightarrow>
               if again then parseValueList sd ts (vs @ [expr]) cur2
               else Inr (vs @ [expr], cur2)))"
  by pat_completeness auto
termination
proof (relation "measure (\<lambda>(sd, ts, vs, cur). length ts - cur)")
  fix sd ts vs cur x2 expr cur1 x2a again cur2
  assume a: "parseExpression sd ts cur = Inr x2" "(expr, cur1) = x2"
    "match ts COMMA cur1 = Inr x2a" "(again, cur2) = x2a" "again"
  have 1: "cur \<le> cur1" using a(1,2) parse_cursor(1) [of sd ts cur] by auto
  have 2: "cur1 < length ts \<and> cur2 = Suc cur1"
    using match_cur [of ts COMMA cur1 again cur2] a(3,4,5) by auto
  show "((sd, ts, vs @ [expr], cur2), sd, ts, vs, cur)
          \<in> measure (\<lambda>(sd, ts, vs, cur). length ts - cur)"
    using 1 2 by auto
qed (rule wf_measure)

declare parseValueList.simps [simp del]

lemma parseValueList_cursor:
  "parseValueList sd ts vs cur = Inr (vs', cur') \<Longrightarrow> cur \<le> cur'"
proof (induction sd ts vs cur arbitrary: vs' cur' rule: parseValueList.induct)
  case (1 sd ts vs cur)
  from "1.prems" obtain expr cur1 where e: "parseExpression sd ts cur = Inr (expr, cur1)"
    by (subst (asm) parseValueList.simps) (auto split: sum.splits prod.splits)
  from "1.prems" e obtain again cur2 where m: "match ts COMMA cur1 = Inr (again, cur2)"
    by (subst (asm) parseValueList.simps) (auto split: sum.splits prod.splits)
  have 1: "cur \<le> cur1" using e parse_cursor(1) [of sd ts cur] by auto
  have 2: "cur1 \<le> cur2" using match_cur [OF m] by auto
  show ?case
  proof (cases again)
    case True
    have "parseValueList sd ts (vs @ [expr]) cur2 = Inr (vs', cur')"
      using "1.prems" e m True by (subst (asm) parseValueList.simps) simp
    then have "cur2 \<le> cur'" by (rule "1.IH" [OF e refl m refl True])
    then show ?thesis using 1 2 by simp
  next
    case False
    have "cur' = cur2"
      using "1.prems" e m False by (subst (asm) parseValueList.simps) simp
    then show ?thesis using 1 2 by simp
  qed
qed

text \<open>The outer loop over the parenthesized value lists.\<close>

function parseValueLists ::
  "(string \<Rightarrow> double option) \<Rightarrow> Token list \<Rightarrow> Expression list list \<Rightarrow> nat
     \<Rightarrow> (Expression list list \<times> nat) result" where
  "parseValueLists sd ts vss cur =
     (case consume ts LEFT_PAREN ''Expected '(' before values'' cur of
        Inl f \<Rightarrow> Inl f
      | Inr cur1 \<Rightarrow>
          (case parseValueList sd ts [] cur1 of
             Inl f \<Rightarrow> Inl f
           | Inr (vs, cur2) \<Rightarrow>
               (case consume ts RIGHT_PAREN ''Expected ')' after values'' cur2 of
                  Inl f \<Rightarrow> Inl f
                | Inr cur3 \<Rightarrow>
                    (case match ts COMMA cur3 of
                       Inl f \<Rightarrow> Inl f
                     | Inr (again, cur4) \<Rightarrow>
                         if again then parseValueLists sd ts (vss @ [vs]) cur4
                         else Inr (vss @ [vs], cur4)))))"
  by pat_completeness auto
termination
proof (relation "measure (\<lambda>(sd, ts, vss, cur). length ts - cur)")
  fix sd ts vss cur cur1 x2 vs cur2 cur3 x2a again cur4
  assume a: "consume ts LEFT_PAREN ''Expected '(' before values'' cur = Inr cur1"
    "parseValueList sd ts [] cur1 = Inr x2" "(vs, cur2) = x2"
    "consume ts RIGHT_PAREN ''Expected ')' after values'' cur2 = Inr cur3"
    "match ts COMMA cur3 = Inr x2a" "(again, cur4) = x2a" "again"
  have 1: "cur < length ts \<and> cur1 = Suc cur" using consume_cur [OF a(1)] .
  have 2: "cur1 \<le> cur2" using parseValueList_cursor [of sd ts "[]" cur1 vs cur2] a(2,3) by auto
  have 3: "cur3 = Suc cur2" using consume_cur [OF a(4)] by simp
  have 4: "cur4 = Suc cur3" using match_cur [of ts COMMA cur3 again cur4] a(5,6,7) by auto
  show "((sd, ts, vss @ [vs], cur4), sd, ts, vss, cur)
          \<in> measure (\<lambda>(sd, ts, vss, cur). length ts - cur)"
    using 1 2 3 4 by auto
qed (rule wf_measure)

declare parseValueLists.simps [simp del]

definition parseInsertStatement ::
  "(string \<Rightarrow> double option) \<Rightarrow> Token list \<Rightarrow> nat \<Rightarrow> (Statement \<times> nat) result" where
  "parseInsertStatement sd ts cur =
     (case consume ts INTO ''Expected 'INTO' after INSERT'' cur of
        Inl f \<Rightarrow> Inl f
      | Inr cur1 \<Rightarrow>
          (case consume ts IDENTIFIER ''Expected table name'' cur1 of
             Inl f \<Rightarrow> Inl f
           | Inr cur2 \<Rightarrow>
               (case previous ts cur2 of
                  Inl f \<Rightarrow> Inl f
                | Inr p \<Rightarrow>
                    (case match ts LEFT_PAREN cur2 of
                       Inl f \<Rightarrow> Inl f
                     | Inr (m, cur3) \<Rightarrow>
                         (case (if m
                                then (case parseInsertColumns ts [] cur3 of
                                        Inl f \<Rightarrow> Inl f
                                      | Inr (cols, cur4) \<Rightarrow>
                                          (case consume ts RIGHT_PAREN
                                                  ''Expected ')' after column list'' cur4 of
                                             Inl f \<Rightarrow> Inl f
                                           | Inr cur5 \<Rightarrow> Inr (cols, cur5)))
                                else Inr ([], cur3)) of
                            Inl f \<Rightarrow> Inl f
                          | Inr (cols, cur6) \<Rightarrow>
                              (case consume ts VALUES (''Expected 'VALUES'' @ [CHR 0x27]) cur6 of
                                 Inl f \<Rightarrow> Inl f
                               | Inr cur7 \<Rightarrow>
                                   (case parseValueLists sd ts [] cur7 of
                                      Inl f \<Rightarrow> Inl f
                                    | Inr (vss, cur8) \<Rightarrow>
                                        Inr (Insert \<lparr>ins_table_name = tok_value p,
                                                     ins_columns = cols, ins_values = vss\<rparr>,
                                             cur8))))))))"

text \<open>The \<^verbatim>\<open>while (match({TokenType::NOT, TokenType::IDENTIFIER}))\<close> loop over the
  constraints of one column; it returns \<^verbatim>\<open>nullable\<close> and \<^verbatim>\<open>primary_key\<close>.\<close>

function parseColumnConstraints ::
  "Token list \<Rightarrow> bool \<Rightarrow> bool \<Rightarrow> nat \<Rightarrow> ((bool \<times> bool) \<times> nat) result" where
  "parseColumnConstraints ts nl pk cur =
     (case match_types ts [NOT, IDENTIFIER] cur of
        Inl f \<Rightarrow> Inl f
      | Inr (m, cur1) \<Rightarrow>
          if m
          then (case previous ts cur1 of
                  Inl f \<Rightarrow> Inl f
                | Inr p \<Rightarrow>
                    if tok_value p = ''NOT''
                    then (case consume ts NULL_KW ''Expected 'NULL' after NOT'' cur1 of
                            Inl f \<Rightarrow> Inl f
                          | Inr cur2 \<Rightarrow> parseColumnConstraints ts False pk cur2)
                    else if tok_value p = ''PRIMARY''
                    then (case consume ts IDENTIFIER ''Expected 'KEY' after PRIMARY'' cur1 of
                            Inl f \<Rightarrow> Inl f
                          | Inr cur2 \<Rightarrow>
                              (case previous ts cur2 of
                                 Inl f \<Rightarrow> Inl f
                               | Inr q \<Rightarrow>
                                   if tok_value q \<noteq> ''KEY''
                                   then Inl (error ts ''Expected 'KEY' after PRIMARY'' cur2)
                                   else parseColumnConstraints ts nl True cur2))
                    else parseColumnConstraints ts nl pk cur1)
          else Inr ((nl, pk), cur1))"
  by pat_completeness auto
termination
proof (relation "measure (\<lambda>(ts, nl, pk, cur). length ts - cur)")
  show "wf (measure (\<lambda>(ts, nl, pk, cur). length ts - cur))" by (rule wf_measure)
next
  fix ts :: "Token list" and nl pk :: bool and cur x2 m cur1 p cur2
  assume a: "match_types ts [NOT, IDENTIFIER] cur = Inr x2" "(m, cur1) = x2" "m"
    "consume ts NULL_KW ''Expected 'NULL' after NOT'' cur1 = Inr cur2"
  have 1: "cur < length ts \<and> cur1 = Suc cur"
    using match_types_cur [of ts "[NOT, IDENTIFIER]" cur m cur1] a(1,2,3) by auto
  show "((ts, False, pk, cur2), ts, nl, pk, cur) \<in> measure (\<lambda>(ts, nl, pk, cur). length ts - cur)"
    using 1 consume_cur [OF a(4)] by auto
next
  fix ts :: "Token list" and nl pk :: bool and cur x2 m cur1 p cur2 q
  assume a: "match_types ts [NOT, IDENTIFIER] cur = Inr x2" "(m, cur1) = x2" "m"
    "consume ts IDENTIFIER ''Expected 'KEY' after PRIMARY'' cur1 = Inr cur2"
  have 1: "cur < length ts \<and> cur1 = Suc cur"
    using match_types_cur [of ts "[NOT, IDENTIFIER]" cur m cur1] a(1,2,3) by auto
  show "((ts, nl, True, cur2), ts, nl, pk, cur) \<in> measure (\<lambda>(ts, nl, pk, cur). length ts - cur)"
    using 1 consume_cur [OF a(4)] by auto
next
  fix ts :: "Token list" and nl pk :: bool and cur x2 m cur1
  assume a: "match_types ts [NOT, IDENTIFIER] cur = Inr x2" "(m, cur1) = x2" "m"
  have 1: "cur < length ts \<and> cur1 = Suc cur"
    using match_types_cur [of ts "[NOT, IDENTIFIER]" cur m cur1] a(1,2,3) by auto
  show "((ts, nl, pk, cur1), ts, nl, pk, cur) \<in> measure (\<lambda>(ts, nl, pk, cur). length ts - cur)"
    using 1 by auto
qed

declare parseColumnConstraints.simps [simp del]

lemma parseDataType_cursor: "parseDataType ts cur = Inr (dt, cur') \<Longrightarrow> cur \<le> cur'"
  by (auto simp: parseDataType_def split: sum.splits prod.splits if_splits dest!: match_cur)

lemma parseColumnConstraints_cursor:
  "parseColumnConstraints ts nl pk cur = Inr (r, cur') \<Longrightarrow> cur \<le> cur'"
proof (induction ts nl pk cur arbitrary: r cur' rule: parseColumnConstraints.induct)
  case (1 ts nl pk cur)
  from "1.prems" obtain m cur1 where mt: "match_types ts [NOT, IDENTIFIER] cur = Inr (m, cur1)"
    by (subst (asm) parseColumnConstraints.simps) (auto split: sum.splits prod.splits)
  note mc = match_types_cur [OF mt]
  show ?case
  proof (cases m)
    case False
    then show ?thesis
      using "1.prems" mt mc by (subst (asm) parseColumnConstraints.simps) auto
  next
    case True
    from "1.prems" mt True obtain p where pv: "previous ts cur1 = Inr p"
      by (subst (asm) parseColumnConstraints.simps) (auto split: sum.splits prod.splits)
    show ?thesis
    proof (cases "tok_value p = ''NOT''")
      case n: True
      from "1.prems" mt True pv n obtain cur2 where
        c: "consume ts NULL_KW ''Expected 'NULL' after NOT'' cur1 = Inr cur2"
        and l: "parseColumnConstraints ts False pk cur2 = Inr (r, cur')"
        by (subst (asm) parseColumnConstraints.simps) (auto split: sum.splits prod.splits)
      have "cur2 \<le> cur'" by (rule "1.IH"(1) [OF mt refl True pv n c l])
      then show ?thesis using mc True consume_cur [OF c] by simp
    next
      case nn: False
      show ?thesis
      proof (cases "tok_value p = ''PRIMARY''")
        case pr: True
        from "1.prems" mt True pv nn pr obtain cur2 where
          c: "consume ts IDENTIFIER ''Expected 'KEY' after PRIMARY'' cur1 = Inr cur2"
          by (subst (asm) parseColumnConstraints.simps) (auto split: sum.splits prod.splits)
        from "1.prems" mt True pv nn pr c obtain q where
          qv: "previous ts cur2 = Inr q"
          by (subst (asm) parseColumnConstraints.simps) (auto split: sum.splits prod.splits)
        from "1.prems" mt True pv nn pr c qv have
          k: "\<not> tok_value q \<noteq> ''KEY''"
          and l: "parseColumnConstraints ts nl True cur2 = Inr (r, cur')"
          by (subst (asm) parseColumnConstraints.simps, auto split: sum.splits prod.splits if_splits)+
        have "cur2 \<le> cur'" by (rule "1.IH"(2) [OF mt refl True pv nn pr c qv k l])
        then show ?thesis using mc True consume_cur [OF c] by simp
      next
        case np: False
        from "1.prems" mt True pv nn np have
          l: "parseColumnConstraints ts nl pk cur1 = Inr (r, cur')"
          by (subst (asm) parseColumnConstraints.simps) (auto split: sum.splits prod.splits)
        have "cur1 \<le> cur'" by (rule "1.IH"(3) [OF mt refl True pv nn np l])
        then show ?thesis using mc True by simp
      qed
    qed
  qed
qed

text \<open>The loop over the column definitions of CREATE TABLE.\<close>

function parseColumnDefinitions ::
  "Token list \<Rightarrow> Column list \<Rightarrow> nat \<Rightarrow> (Column list \<times> nat) result" where
  "parseColumnDefinitions ts cols cur =
     (case consume ts IDENTIFIER ''Expected column name'' cur of
        Inl f \<Rightarrow> Inl f
      | Inr cur1 \<Rightarrow>
          (case previous ts cur1 of
             Inl f \<Rightarrow> Inl f
           | Inr p \<Rightarrow>
               (case parseDataType ts cur1 of
                  Inl f \<Rightarrow> Inl f
                | Inr (data_type, cur2) \<Rightarrow>
                    (case parseColumnConstraints ts True False cur2 of
                       Inl f \<Rightarrow> Inl f
                     | Inr ((nl, pk), cur3) \<Rightarrow>
                         (case match ts COMMA cur3 of
                            Inl f \<Rightarrow> Inl f
                          | Inr (again, cur4) \<Rightarrow>
                              if again
                              then parseColumnDefinitions ts
                                     (cols @ [\<lparr>col_name = tok_value p, col_type = data_type,
                                               nullable = nl, primary_key = pk\<rparr>]) cur4
                              else Inr (cols @ [\<lparr>col_name = tok_value p, col_type = data_type,
                                                 nullable = nl, primary_key = pk\<rparr>], cur4))))))"
  by pat_completeness auto
termination
proof (relation "measure (\<lambda>(ts, cols, cur). length ts - cur)")
  fix ts cols cur cur1 p x2 data_type cur2 x2a x1a nl pk cur3 x2b again cur4
  assume a: "consume ts IDENTIFIER ''Expected column name'' cur = Inr cur1"
    "parseDataType ts cur1 = Inr x2" "(data_type, cur2) = x2"
    "parseColumnConstraints ts True False cur2 = Inr x2a" "(x1a, cur3) = x2a"
    "match ts COMMA cur3 = Inr x2b" "(again, cur4) = x2b" "again"
  have 1: "cur < length ts \<and> cur1 = Suc cur" using consume_cur [OF a(1)] .
  have 2: "cur1 \<le> cur2" using parseDataType_cursor [of ts cur1 data_type cur2] a(2,3) by auto
  have 3: "cur2 \<le> cur3"
    using parseColumnConstraints_cursor [of ts True False cur2 x1a cur3] a(4,5) by auto
  have 4: "cur4 = Suc cur3" using match_cur [of ts COMMA cur3 again cur4] a(6,7,8) by auto
  show "((ts, cols @ [\<lparr>col_name = tok_value p, col_type = data_type, nullable = nl,
                       primary_key = pk\<rparr>], cur4), ts, cols, cur)
          \<in> measure (\<lambda>(ts, cols, cur). length ts - cur)"
    using 1 2 3 4 by auto
qed (rule wf_measure)

declare parseColumnDefinitions.simps [simp del]

definition parseCreateTableStatement :: "Token list \<Rightarrow> nat \<Rightarrow> (Statement \<times> nat) result" where
  "parseCreateTableStatement ts cur =
     (case consume ts TABLE ''Expected 'TABLE' after CREATE'' cur of
        Inl f \<Rightarrow> Inl f
      | Inr cur1 \<Rightarrow>
          (case consume ts IDENTIFIER ''Expected table name'' cur1 of
             Inl f \<Rightarrow> Inl f
           | Inr cur2 \<Rightarrow>
               (case previous ts cur2 of
                  Inl f \<Rightarrow> Inl f
                | Inr p \<Rightarrow>
                    (case consume ts LEFT_PAREN ''Expected '(' after table name'' cur2 of
                       Inl f \<Rightarrow> Inl f
                     | Inr cur3 \<Rightarrow>
                         (case parseColumnDefinitions ts [] cur3 of
                            Inl f \<Rightarrow> Inl f
                          | Inr (cols, cur4) \<Rightarrow>
                              (case consume ts RIGHT_PAREN
                                      ''Expected ')' after column definitions'' cur4 of
                                 Inl f \<Rightarrow> Inl f
                               | Inr cur5 \<Rightarrow>
                                   Inr (CreateTable \<lparr>crt_table_name = tok_value p,
                                                      crt_columns = cols\<rparr>, cur5)))))))"

definition parseDropTableStatement :: "Token list \<Rightarrow> nat \<Rightarrow> (Statement \<times> nat) result" where
  "parseDropTableStatement ts cur =
     (case consume ts TABLE ''Expected 'TABLE' after DROP'' cur of
        Inl f \<Rightarrow> Inl f
      | Inr cur1 \<Rightarrow>
          (case consume ts IDENTIFIER ''Expected table name'' cur1 of
             Inl f \<Rightarrow> Inl f
           | Inr cur2 \<Rightarrow>
               (case previous ts cur2 of
                  Inl f \<Rightarrow> Inl f
                | Inr p \<Rightarrow> Inr (DropTable \<lparr>drop_table_name = tok_value p\<rparr>, cur2))))"

text \<open>
  \<^verbatim>\<open>parseStatement\<close>. \<^verbatim>\<open>error\<close> always throws, so the \<^verbatim>\<open>return nullptr\<close> after it is
  never reached and the function never returns a null statement.
\<close>

definition parseStatement ::
  "(string \<Rightarrow> double option) \<Rightarrow> Token list \<Rightarrow> nat \<Rightarrow> (Statement \<times> nat) result" where
  "parseStatement sd ts cur =
     (case match ts SELECT cur of
        Inl f \<Rightarrow> Inl f
      | Inr (m1, cur1) \<Rightarrow>
          if m1 then parseSelectStatement sd ts cur1
          else (case match ts INSERT cur1 of
                  Inl f \<Rightarrow> Inl f
                | Inr (m2, cur2) \<Rightarrow>
                    if m2 then parseInsertStatement sd ts cur2
                    else (case match ts CREATE cur2 of
                            Inl f \<Rightarrow> Inl f
                          | Inr (m3, cur3) \<Rightarrow>
                              if m3 then parseCreateTableStatement ts cur3
                              else (case match ts DROP cur3 of
                                      Inl f \<Rightarrow> Inl f
                                    | Inr (m4, cur4) \<Rightarrow>
                                        if m4 then parseDropTableStatement ts cur4
                                        else Inl (error ts ''Expected statement'' cur4)))))"

section \<open>Execution (llvm_codegen.cpp)\<close>

text \<open>
  The generator keeps the rows of the last query in \<^verbatim>\<open>results_\<close> and works on the
  database of the engine through \<^verbatim>\<open>current_database_\<close>; \<^verbatim>\<open>last_error_\<close> belongs to the
  engine. A statement that throws leaves the state as it is at the \<^verbatim>\<open>throw\<close>, so a
  throwing step returns the failure together with that state.
\<close>

record QueryEngine =
  database :: Database
  results :: "Row list"
  last_error :: string
  llvm_context :: bool
  llvm_module :: bool

type_synonym step = "(failure \<times> QueryEngine) + QueryEngine"

text \<open>
  The LLVM objects hold no data of the tables. Of \<^verbatim>\<open>context_\<close> and \<^verbatim>\<open>module_\<close> the state
  records whether the \<^verbatim>\<open>unique_ptr\<close> still holds its object (\<open>llvm_context\<close>,
  \<open>llvm_module\<close>): \<^verbatim>\<open>compileAndExecute\<close> moves both into the JIT, and \<^verbatim>\<open>*context_\<close> or
  \<^verbatim>\<open>*module_\<close> on a pointer that has been moved from has no defined behaviour. LLVM is
  not part of the repository: whether \<^verbatim>\<open>llvm::verifyModule\<close> reports a broken module,
  whether the constructor obtained a JIT, and whether \<^verbatim>\<open>addIRModule\<close> fails are parameters.
  \<^verbatim>\<open>jit_\<close> is set by the constructor only, so in a session \<open>jit_created\<close> has the same
  value at every call.
\<close>

record Backend =
  verifyModule_fails :: bool
  jit_created :: bool
  addIRModule_fails :: bool

text \<open>\<^verbatim>\<open>evaluateWhereClause\<close>: the \<^verbatim>\<open>dynamic_cast\<close> to \<^verbatim>\<open>BinaryExpression\<close> is tried
  first, then the one to \<^verbatim>\<open>LiteralExpression\<close>.\<close>

fun evaluateWhereClause :: "Expression \<Rightarrow> Row \<Rightarrow> bool" where
  "evaluateWhereClause (BinaryExpression left op right) row =
     (let left_val = evaluateWhereClause left row;
          right_val = evaluateWhereClause right row
      in if op = BinOp_AND then left_val \<and> right_val
         else if op = BinOp_OR then left_val \<or> right_val
         else True)"
| "evaluateWhereClause (LiteralExpression v) row =
     (case v of BoolV b \<Rightarrow> b | _ \<Rightarrow> True)"
| "evaluateWhereClause (ColumnExpression t c) row = True"
| "evaluateWhereClause (UnaryExpression op operand) row = True"

text \<open>The value of \<^verbatim>\<open>include_row\<close> in the loop of \<^verbatim>\<open>visit(SelectStatement&)\<close>:
  \<^verbatim>\<open>true\<close>, or what \<^verbatim>\<open>evaluateWhereClause\<close> returns when there is a WHERE clause.\<close>

definition include_row :: "SelectStatement \<Rightarrow> Row \<Rightarrow> bool" where
  "include_row node row =
     (case where_clause node of
        None \<Rightarrow> True
      | Some w \<Rightarrow> evaluateWhereClause w row)"

text \<open>The \<^verbatim>\<open>for (const auto& row : rows)\<close> loop of \<^verbatim>\<open>visit(SelectStatement&)\<close>.\<close>

fun select_rows :: "SelectStatement \<Rightarrow> Row list \<Rightarrow> Row list \<Rightarrow> Row list" where
  "select_rows node [] res = res"
| "select_rows node (row # rest) res =
     select_rows node rest (if include_row node row then res @ [row] else res)"

text \<open>\<^verbatim>\<open>visit(SelectStatement&)\<close>. After the table is found,
  \<^verbatim>\<open>llvm::Type::getVoidTy(*context_)\<close> dereferences \<^verbatim>\<open>context_\<close>.\<close>

definition visit_SelectStatement :: "SelectStatement \<Rightarrow> QueryEngine \<Rightarrow> step" where
  "visit_SelectStatement node eng =
     (case getTable (database eng) (from_table node) of
        None \<Rightarrow> Inl (Exception (''Table not found: '' @ from_table node), eng)
      | Some t \<Rightarrow>
          if \<not> llvm_context eng then Inl (UndefinedBehaviour, eng)
          else Inr (eng\<lparr>results := select_rows node (rows t) (results eng)\<rparr>))"

text \<open>The inner loop of \<^verbatim>\<open>visit(InsertStatement&)\<close>, which builds one row.\<close>

fun insert_row_of :: "Expression list \<Rightarrow> Row \<Rightarrow> Row result" where
  "insert_row_of [] row = Inr row"
| "insert_row_of (expr # rest) row =
     (case expr of
        LiteralExpression v \<Rightarrow> insert_row_of rest (row @ [v])
      | _ \<Rightarrow> Inl (Exception ''Complex expressions in INSERT not yet supported''))"

text \<open>The outer loop over the value lists; it returns the table as it is when the loop
  ends or throws.\<close>

fun insert_value_lists :: "Expression list list \<Rightarrow> Table \<Rightarrow> Table \<times> failure option" where
  "insert_value_lists [] t = (t, None)"
| "insert_value_lists (value_list # rest) t =
     (case insert_row_of value_list [] of
        Inl f \<Rightarrow> (t, Some f)
      | Inr row \<Rightarrow>
          (case insertRow t row of
             Inl f \<Rightarrow> (t, Some f)
           | Inr t' \<Rightarrow> insert_value_lists rest t'))"

definition visit_InsertStatement :: "InsertStatement \<Rightarrow> QueryEngine \<Rightarrow> step" where
  "visit_InsertStatement node eng =
     (case getTable (database eng) (ins_table_name node) of
        None \<Rightarrow> Inl (Exception (''Table not found: '' @ ins_table_name node), eng)
      | Some t \<Rightarrow>
          (case insert_value_lists (ins_values node) t of
             (t', r) \<Rightarrow>
               (let eng' = eng\<lparr>database :=
                             (database eng)\<lparr>tables :=
                               (tables (database eng))(ins_table_name node \<mapsto> t')\<rparr>\<rparr>
                in case r of None \<Rightarrow> Inr eng' | Some f \<Rightarrow> Inl (f, eng'))))"

definition visit_CreateTableStatement :: "CreateTableStatement \<Rightarrow> QueryEngine \<Rightarrow> step" where
  "visit_CreateTableStatement node eng =
     (case createTable (database eng) (crt_table_name node)
             (foldl addColumn empty_Schema (crt_columns node)) of
        Inl f \<Rightarrow> Inl (f, eng)
      | Inr db \<Rightarrow> Inr (eng\<lparr>database := db\<rparr>))"

definition visit_DropTableStatement :: "DropTableStatement \<Rightarrow> QueryEngine \<Rightarrow> step" where
  "visit_DropTableStatement node eng =
     Inr (eng\<lparr>database := dropTable (database eng) (drop_table_name node)\<rparr>)"

text \<open>\<^verbatim>\<open>statement.accept(*this)\<close> (ast.cpp).\<close>

fun accept :: "Statement \<Rightarrow> QueryEngine \<Rightarrow> step" where
  "accept (Select node) eng = visit_SelectStatement node eng"
| "accept (Insert node) eng = visit_InsertStatement node eng"
| "accept (CreateTable node) eng = visit_CreateTableStatement node eng"
| "accept (DropTable node) eng = visit_DropTableStatement node eng"

text \<open>\<^verbatim>\<open>generateCode\<close>. \<^verbatim>\<open>llvm::verifyModule(*module_, ...)\<close> dereferences \<^verbatim>\<open>module_\<close>.\<close>

definition generateCode :: "Backend \<Rightarrow> Statement \<Rightarrow> QueryEngine \<Rightarrow> step" where
  "generateCode be statement eng =
     (case accept statement (eng\<lparr>results := []\<rparr>) of
        Inl x \<Rightarrow> Inl x
      | Inr eng1 \<Rightarrow>
          if \<not> llvm_module eng1 then Inl (UndefinedBehaviour, eng1)
          else if verifyModule_fails be
          then Inl (Exception ''LLVM module verification failed'', eng1)
          else Inr eng1)"

text \<open>\<^verbatim>\<open>LLVMCodeGenerator::execute\<close>, that is \<^verbatim>\<open>compileAndExecute\<close>. With a JIT,
  \<^verbatim>\<open>ThreadSafeModule(std::move(module_), std::move(context_))\<close> leaves both pointers
  null, before \<^verbatim>\<open>addIRModule\<close> is called; handing LLVM a module pointer that is already
  null has no defined behaviour. The compiled function \<^verbatim>\<open>select_query\<close> only returns.\<close>

definition compileAndExecute :: "Backend \<Rightarrow> QueryEngine \<Rightarrow> step" where
  "compileAndExecute be eng =
     (if \<not> jit_created be then Inr eng
      else if \<not> llvm_module eng
      then Inl (UndefinedBehaviour, eng\<lparr>llvm_context := False, llvm_module := False\<rparr>)
      else if addIRModule_fails be
      then Inl (Exception ''Failed to add module to JIT'',
                eng\<lparr>llvm_context := False, llvm_module := False\<rparr>)
      else Inr (eng\<lparr>llvm_context := False, llvm_module := False\<rparr>))"

section \<open>The query engine (query_engine.cpp)\<close>

definition new_QueryEngine :: QueryEngine where
  "new_QueryEngine =
     \<lparr>database = empty_Database, results = [], last_error = [],
      llvm_context = True, llvm_module = True\<rparr>"

text \<open>\<^verbatim>\<open>setError(e.what())\<close>: \<^verbatim>\<open>what()\<close> is a C string, and the \<^verbatim>\<open>std::string\<close> built from
  it ends before the first NUL character of the message.\<close>

definition c_str :: "string \<Rightarrow> string" where
  "c_str m = takeWhile (\<lambda>c. c \<noteq> CHR 0x00) m"

text \<open>The body of the \<^verbatim>\<open>try\<close> block of \<^verbatim>\<open>execute\<close>, after \<^verbatim>\<open>clearError()\<close>: it returns the
  rows and the engine, or the failure and the engine as the failure left it.\<close>

definition execute_try ::
  "Backend \<Rightarrow> (string \<Rightarrow> double option) \<Rightarrow> QueryEngine \<Rightarrow> string
     \<Rightarrow> (failure \<times> QueryEngine) + (Row list \<times> QueryEngine)" where
  "execute_try be sd eng sql =
     (let tokens = tokenize (new_Lexer sql) in
      if tokens = [] then Inr ([], eng\<lparr>last_error := ''No tokens found in SQL''\<rparr>)
      else (case parseStatement sd tokens 0 of
              Inl f \<Rightarrow> Inl (f, eng)
            | Inr (statement, cur) \<Rightarrow>
                (case generateCode be statement eng of
                   Inl x \<Rightarrow> Inl x
                 | Inr eng1 \<Rightarrow>
                     (case compileAndExecute be eng1 of
                        Inl x \<Rightarrow> Inl x
                      | Inr eng2 \<Rightarrow> Inr (results eng2, eng2)))))"

text \<open>
  \<^verbatim>\<open>QueryEngine::execute\<close>. The handler \<^verbatim>\<open>catch (const std::exception& e)\<close> catches every
  exception of the model; undefined behaviour is not an exception, and the call has no
  result then. \<open>Inl (Exception m)\<close> as the result of \<open>execute\<close> would be an exception that
  reaches the caller.
\<close>

definition execute ::
  "Backend \<Rightarrow> (string \<Rightarrow> double option) \<Rightarrow> QueryEngine \<Rightarrow> string
     \<Rightarrow> (Row list \<times> QueryEngine) result" where
  "execute be sd eng sql =
     (case execute_try be sd (eng\<lparr>last_error := []\<rparr>) sql of
        Inr r \<Rightarrow> Inr r
      | Inl (Exception m, eng1) \<Rightarrow> Inr ([], eng1\<lparr>last_error := c_str m\<rparr>)
      | Inl (UndefinedBehaviour, eng1) \<Rightarrow> Inl UndefinedBehaviour)"


subsection \<open>The loop of a SELECT\<close>

lemma select_rows_filter:
  "select_rows node rs res = res @ filter (include_row node) rs"
  by (induction rs arbitrary: res) simp_all

subsection \<open>What \<open>execute\<close> does with a parsed statement\<close>

lemma execute_parsed:
  assumes "tokenize (new_Lexer sql) \<noteq> []"
    and "parseStatement sd (tokenize (new_Lexer sql)) 0 = Inr (statement, cur)"
  shows "execute be sd eng sql =
     (case generateCode be statement (eng\<lparr>last_error := []\<rparr>) of
        Inl (Exception m, eng1) \<Rightarrow> Inr ([], eng1\<lparr>last_error := c_str m\<rparr>)
      | Inl (UndefinedBehaviour, eng1) \<Rightarrow> Inl UndefinedBehaviour
      | Inr eng1 \<Rightarrow>
          (case compileAndExecute be eng1 of
             Inl (Exception m, eng2) \<Rightarrow> Inr ([], eng2\<lparr>last_error := c_str m\<rparr>)
           | Inl (UndefinedBehaviour, eng2) \<Rightarrow> Inl UndefinedBehaviour
           | Inr eng2 \<Rightarrow> Inr (results eng2, eng2)))"
  using assms
  by (simp add: execute_def execute_try_def split: sum.splits prod.splits failure.splits)

lemma execute_parse_error:
  assumes "tokenize (new_Lexer sql) \<noteq> []"
    and "parseStatement sd (tokenize (new_Lexer sql)) 0 = Inl (Exception m)"
  shows "execute be sd eng sql = Inr ([], eng\<lparr>last_error := c_str m\<rparr>)"
  using assms by (simp add: execute_def execute_try_def)

lemma visit_SelectStatement_rows:
  "visit_SelectStatement node eng =
     (case getTable (database eng) (from_table node) of
        None \<Rightarrow> Inl (Exception (''Table not found: '' @ from_table node), eng)
      | Some t \<Rightarrow>
          if \<not> llvm_context eng then Inl (UndefinedBehaviour, eng)
          else Inr (eng\<lparr>results := results eng @ filter (include_row node) (rows t)\<rparr>))"
  by (simp add: visit_SelectStatement_def select_rows_filter split: option.splits)

lemma execute_Select:
  assumes "tokenize (new_Lexer sql) \<noteq> []"
    and "parseStatement sd (tokenize (new_Lexer sql)) 0 = Inr (Select node, cur)"
    and "getTable (database eng) (from_table node) = Some t"
    and "llvm_context eng" and "llvm_module eng"
    and "\<not> verifyModule_fails be" and "jit_created be \<longrightarrow> \<not> addIRModule_fails be"
  shows "execute be sd eng sql =
     Inr (filter (include_row node) (rows t),
          eng\<lparr>results := filter (include_row node) (rows t), last_error := [],
              llvm_context := \<not> jit_created be, llvm_module := \<not> jit_created be\<rparr>)"
proof (cases "jit_created be")
  case True
  then show ?thesis
    using assms(3-7)
    by (simp add: execute_parsed [OF assms(1,2)] generateCode_def visit_SelectStatement_rows
          compileAndExecute_def)
next
  case False
  have "eng\<lparr>results := filter (include_row node) (rows t), last_error := [],
            llvm_context := True, llvm_module := True\<rparr>
        = eng\<lparr>results := filter (include_row node) (rows t), last_error := []\<rparr>"
    using assms(4,5) by (cases eng) simp
  then show ?thesis
    using assms(3-7) False
    by (simp add: execute_parsed [OF assms(1,2)] generateCode_def visit_SelectStatement_rows
          compileAndExecute_def)
qed

lemma evaluateWhereClause_row: "evaluateWhereClause w row = evaluateWhereClause w row'"
  by (induction w) (auto simp: Let_def split: Value.splits)

subsection \<open>The rows an INSERT stores\<close>

text \<open>A value list is accepted by a table when the inner loop of
  \<^verbatim>\<open>visit(InsertStatement&)\<close> builds a row from it and \<^verbatim>\<open>insertRow\<close> does not throw on
  that row.\<close>

definition row_accepted :: "Table \<Rightarrow> Expression list \<Rightarrow> bool" where
  "row_accepted t value_list =
     (case insert_row_of value_list [] of
        Inl f \<Rightarrow> False
      | Inr row \<Rightarrow> (case insertRow t row of Inl f \<Rightarrow> False | Inr t' \<Rightarrow> True))"

lemma insertRow_rows:
  "insertRow t row = Inr t' \<Longrightarrow> t' = t\<lparr>rows := rows t @ [row]\<rparr>"
  by (auto simp: insertRow_def split: sum.splits if_splits)

lemma row_accepted_rows: "row_accepted (t\<lparr>rows := rs\<rparr>) = row_accepted t"
  by (simp add: row_accepted_def insertRow_def validateRow_def fun_eq_iff
           split: sum.splits)

lemma insert_row_of_literals:
  "insert_row_of vs row = Inr row' \<Longrightarrow> vs = map LiteralExpression (drop (length row) row')
      \<and> take (length row) row' = row"
proof (induction vs arbitrary: row)
  case Nil
  then show ?case by simp
next
  case (Cons e es)
  from Cons.prems obtain v where e: "e = LiteralExpression v"
    by (cases e) auto
  from Cons.prems have "insert_row_of es (row @ [v]) = Inr row'" by (simp add: e)
  from Cons.IH [OF this] have
    es: "es = map LiteralExpression (drop (Suc (length row)) row')"
    and tk: "take (Suc (length row)) row' = row @ [v]"
    by simp_all
  from tk have l: "length row < length row'"
    by (metis length_append_singleton length_take lessI min_less_iff_conj)
  from tk l have v: "row' ! length row = v"
    by (metis lessI nth_append_length nth_take)
  from tk have r: "take (length row) row' = row"
    by (metis append1_eq_conv l take_Suc_conv_app_nth)
  have "drop (length row) row' = v # drop (Suc (length row)) row'"
    using l v by (metis Cons_nth_drop_Suc)
  then show ?case using e es r by simp
qed

lemma insert_value_lists_rows:
  "insert_value_lists vss t = (t', r) \<Longrightarrow>
     \<exists>new. t' = t\<lparr>rows := rows t @ new\<rparr>
        \<and> map (map LiteralExpression) new = takeWhile (row_accepted t) vss
        \<and> (r = None) = (length new = length vss)"
proof (induction vss arbitrary: t)
  case Nil
  then show ?case by auto
next
  case (Cons vs vss)
  show ?case
  proof (cases "insert_row_of vs []")
    case (Inl f)
    with Cons.prems have "t' = t" "r = Some f" by auto
    moreover have "\<not> row_accepted t vs" by (simp add: row_accepted_def Inl)
    ultimately show ?thesis by (intro exI [of _ "[]"]) simp
  next
    case (Inr row)
    have vs: "vs = map LiteralExpression row"
      using insert_row_of_literals [OF Inr] by simp
    show ?thesis
    proof (cases "insertRow t row")
      case (Inl f)
      with Inr Cons.prems have "t' = t" "r = Some f" by auto
      moreover have "\<not> row_accepted t vs" by (simp add: row_accepted_def Inr Inl)
      ultimately show ?thesis by (intro exI [of _ "[]"]) simp
    next
      case t1: (Inr t1)
      have t1_eq: "t1 = t\<lparr>rows := rows t @ [row]\<rparr>" by (rule insertRow_rows [OF t1])
      have acc: "row_accepted t vs" by (simp add: row_accepted_def Inr t1)
      from Inr t1 Cons.prems have "insert_value_lists vss t1 = (t', r)" by simp
      from Cons.IH [OF this] obtain new where
        k: "t' = t1\<lparr>rows := rows t1 @ new\<rparr>"
        "map (map LiteralExpression) new = takeWhile (row_accepted t1) vss"
        "(r = None) = (length new = length vss)"
        by blast
      show ?thesis
        using k acc vs by (intro exI [of _ "row # new"]) (simp add: t1_eq row_accepted_rows)
    qed
  qed
qed

lemma c_str_nonempty: "m \<noteq> [] \<Longrightarrow> hd m \<noteq> CHR 0x00 \<Longrightarrow> c_str m \<noteq> []"
  by (cases m) (simp_all add: c_str_def)

lemma insert_value_lists_c_str:
  "insert_value_lists vss t = (t', Some f) \<Longrightarrow> \<exists>m. f = Exception m \<and> c_str m \<noteq> []"
proof (induction vss arbitrary: t)
  case Nil
  then show ?case by simp
next
  case (Cons vs vss)
  have r: "\<And>row. insert_row_of vs row = Inl f \<Longrightarrow> \<exists>m. f = Exception m \<and> c_str m \<noteq> []"
  proof (induction vs)
    case Nil
    then show ?case by simp
  next
    case (Cons e es)
    then show ?case by (cases e) (auto simp: c_str_nonempty)
  qed
  have v: "\<And>s row i. validateRow_loop s row i = Inl f
              \<Longrightarrow> \<exists>m. f = Exception m \<and> c_str m \<noteq> []"
  proof -
    fix s row i
    show "validateRow_loop s row i = Inl f \<Longrightarrow> \<exists>m. f = Exception m \<and> c_str m \<noteq> []"
    proof (induction s row i rule: validateRow_loop.induct)
      case (1 s row i)
      then show ?case
        by (subst (asm) validateRow_loop.simps)
           (auto simp: getColumn_def c_str_nonempty split: if_splits sum.splits)
    qed
  qed
  from Cons show ?case
    by (auto simp: insertRow_def validateRow_def c_str_nonempty
             split: sum.splits if_splits dest: r v)
qed

lemma takeWhile_full: "length (takeWhile P xs) = length xs \<Longrightarrow> takeWhile P xs = xs"
  by (metis takeWhile_eq_take take_all order_refl)

lemma visit_InsertStatement_columns:
  "visit_InsertStatement (node\<lparr>ins_columns := cols\<rparr>) eng = visit_InsertStatement node eng"
  by (simp add: visit_InsertStatement_def split: option.splits prod.splits)

subsection \<open>The schema CREATE TABLE builds\<close>

lemma foldl_addColumn_columns:
  "columns (foldl addColumn s cols) = columns s @ cols"
  by (induction cols arbitrary: s) (simp_all add: addColumn_def)

lemma foldl_addColumn_index:
  "(column_index (foldl addColumn empty_Schema cols) n = Some i)
     = (i < length cols \<and> col_name (cols ! i) = n
          \<and> (\<forall>j. i < j \<and> j < length cols \<longrightarrow> col_name (cols ! j) \<noteq> n))"
proof (induction cols arbitrary: i rule: rev_induct)
  case Nil
  then show ?case by (simp add: empty_Schema_def)
next
  case (snoc c cols)
  let ?s = "foldl addColumn empty_Schema cols"
  have len: "length (columns ?s) = length cols"
    by (simp add: foldl_addColumn_columns empty_Schema_def)
  have ix: "\<And>m. column_index (addColumn ?s c) m
              = (if m = col_name c then Some (length cols) else column_index ?s m)"
    by (simp add: addColumn_def len)
  show ?case
  proof (cases "n = col_name c")
    case True
    show ?thesis
    proof (cases "i = length cols")
      case True
      then show ?thesis using \<open>n = col_name c\<close> by (auto simp: ix)
    next
      case False
      have "\<not> (i < length (cols @ [c]) \<and> col_name ((cols @ [c]) ! i) = n
          \<and> (\<forall>j. i < j \<and> j < length (cols @ [c]) \<longrightarrow> col_name ((cols @ [c]) ! j) \<noteq> n))"
      proof
        assume a: "i < length (cols @ [c]) \<and> col_name ((cols @ [c]) ! i) = n
          \<and> (\<forall>j. i < j \<and> j < length (cols @ [c]) \<longrightarrow> col_name ((cols @ [c]) ! j) \<noteq> n)"
        then have "i < length cols" using False by simp
        moreover from a have "\<forall>j. i < j \<and> j < length (cols @ [c])
                                \<longrightarrow> col_name ((cols @ [c]) ! j) \<noteq> n"
          by (rule conjunct2 [OF conjunct2])
        ultimately have "col_name ((cols @ [c]) ! length cols) \<noteq> n"
          by (metis length_append_singleton lessI)
        then show False using True by simp
      qed
      then show ?thesis using True False by (simp add: ix)
    qed
  next
    case False
    have "(i < length (cols @ [c]) \<and> col_name ((cols @ [c]) ! i) = n
          \<and> (\<forall>j. i < j \<and> j < length (cols @ [c]) \<longrightarrow> col_name ((cols @ [c]) ! j) \<noteq> n))
       = (i < length cols \<and> col_name (cols ! i) = n
          \<and> (\<forall>j. i < j \<and> j < length cols \<longrightarrow> col_name (cols ! j) \<noteq> n))"
      using False by (auto simp: nth_append less_Suc_eq)
    then show ?thesis using False snoc.IH [of i] by (simp add: ix)
  qed
qed


subsection \<open>Tokens that follow the ones the parser reads\<close>

text \<open>
  Two calls, one on a token vector and one on that vector with more tokens appended: the
  second call is unaffected by the appended tokens when it has the result of the first,
  unless the first reads past the end of its vector. Every function of the parser has
  this property, because it reaches the tokens through \<^verbatim>\<open>peek\<close> and \<^verbatim>\<open>previous\<close> only.
\<close>

definition unaffected :: "'a result \<Rightarrow> 'a result \<Rightarrow> bool" where
  "unaffected r' r \<longleftrightarrow> r = Inl UndefinedBehaviour \<or> r' = r"

lemma unaffected_refl: "unaffected r r"
  by (simp add: unaffected_def)

lemma unaffected_bind:
  assumes "unaffected g' g" and "\<And>y. g = Inr y \<Longrightarrow> unaffected (h' y) (h y)"
  shows "unaffected (case g' of Inl f \<Rightarrow> Inl f | Inr y \<Rightarrow> h' y)
                    (case g of Inl f \<Rightarrow> Inl f | Inr y \<Rightarrow> h y)"
  using assms by (auto simp: unaffected_def split: sum.splits)

lemma unaffected_bind2:
  assumes "unaffected g' g" and "\<And>a b. g = Inr (a, b) \<Longrightarrow> unaffected (h' a b) (h a b)"
  shows "unaffected (case g' of Inl f \<Rightarrow> Inl f | Inr (a, b) \<Rightarrow> h' a b)
                    (case g of Inl f \<Rightarrow> Inl f | Inr (a, b) \<Rightarrow> h a b)"
  using assms by (auto simp: unaffected_def split: sum.splits prod.splits)

lemma unaffected_bind3:
  assumes "unaffected g' g"
    and "\<And>a b c. g = Inr ((a, b), c) \<Longrightarrow> unaffected (h' a b c) (h a b c)"
  shows "unaffected (case g' of Inl f \<Rightarrow> Inl f | Inr ((a, b), c) \<Rightarrow> h' a b c)
                    (case g of Inl f \<Rightarrow> Inl f | Inr ((a, b), c) \<Rightarrow> h a b c)"
  using assms by (auto simp: unaffected_def split: sum.splits prod.splits)

lemma unaffected_if:
  assumes "c \<Longrightarrow> unaffected a' a" and "\<not> c \<Longrightarrow> unaffected b' b"
  shows "unaffected (if c then a' else b') (if c then a else b)"
  using assms by simp

lemma unaffected_peek: "unaffected (Parser_peek (ts @ extra) cur) (Parser_peek ts cur)"
  by (simp add: unaffected_def Parser_peek_def nth_append)

lemma unaffected_previous: "unaffected (previous (ts @ extra) cur) (previous ts cur)"
  by (simp add: unaffected_def previous_def nth_append)

lemma unaffected_isAtEnd: "unaffected (isAtEnd (ts @ extra) cur) (isAtEnd ts cur)"
  unfolding isAtEnd_def by (intro unaffected_bind unaffected_peek unaffected_refl)

lemma unaffected_advance:
  "unaffected (Parser_advance (ts @ extra) cur) (Parser_advance ts cur)"
  unfolding Parser_advance_def Let_def
  by (intro unaffected_bind unaffected_isAtEnd unaffected_previous unaffected_refl)

lemma unaffected_check: "unaffected (check (ts @ extra) ty cur) (check ts ty cur)"
  unfolding check_def
  by (intro unaffected_bind unaffected_if unaffected_isAtEnd unaffected_peek unaffected_refl)

lemma unaffected_match: "unaffected (match (ts @ extra) ty cur) (match ts ty cur)"
  unfolding match_def
  by (intro unaffected_bind2 unaffected_bind unaffected_if unaffected_check unaffected_advance
        unaffected_refl)

lemma unaffected_match_types:
  "unaffected (match_types (ts @ extra) types cur) (match_types ts types cur)"
proof (induction types)
  case Nil
  show ?case by (simp add: match_types.simps unaffected_refl)
next
  case (Cons ty types)
  show ?case
    unfolding match_types.simps
    by (intro unaffected_bind2 unaffected_bind unaffected_if unaffected_check
          unaffected_advance unaffected_refl Cons.IH)
qed

lemma unaffected_error:
  "unaffected (Inl (error (ts @ extra) message cur)) (Inl (error ts message cur))"
  by (auto simp: unaffected_def error_def isAtEnd_def Parser_peek_def nth_append
           split: sum.splits)

lemma unaffected_consume:
  "unaffected (consume (ts @ extra) ty message cur) (consume ts ty message cur)"
  unfolding consume_def
  by (intro unaffected_bind2 unaffected_bind unaffected_if unaffected_check unaffected_advance
        unaffected_error unaffected_refl)

lemma unaffected_parseValue:
  "unaffected (parseValue sd (ts @ extra) token cur) (parseValue sd ts token cur)"
  unfolding parseValue_def
  by (intro unaffected_if unaffected_error unaffected_refl)

lemma unaffected_parseDataType:
  "unaffected (parseDataType (ts @ extra) cur) (parseDataType ts cur)"
  unfolding parseDataType_def
  by (intro unaffected_bind2 unaffected_if unaffected_match unaffected_error unaffected_refl)

lemmas unaffected_intros =
  unaffected_bind3 unaffected_bind2 unaffected_bind unaffected_if unaffected_match
  unaffected_match_types unaffected_previous unaffected_consume unaffected_parseValue
  unaffected_parseDataType unaffected_error unaffected_refl

lemma unaffected_parseExpression:
  shows "unaffected (parseExpression sd (ts @ extra) cur) (parseExpression sd ts cur)"
    and "unaffected (parseOrExpression sd (ts @ extra) cur) (parseOrExpression sd ts cur)"
    and "unaffected (parseOrExpression_loop sd (ts @ extra) expr cur) (parseOrExpression_loop sd ts expr cur)"
    and "unaffected (parseAndExpression sd (ts @ extra) cur) (parseAndExpression sd ts cur)"
    and "unaffected (parseAndExpression_loop sd (ts @ extra) expr cur) (parseAndExpression_loop sd ts expr cur)"
    and "unaffected (parseEqualityExpression sd (ts @ extra) cur) (parseEqualityExpression sd ts cur)"
    and "unaffected (parseEqualityExpression_loop sd (ts @ extra) expr cur) (parseEqualityExpression_loop sd ts expr cur)"
    and "unaffected (parseComparisonExpression sd (ts @ extra) cur) (parseComparisonExpression sd ts cur)"
    and "unaffected (parseComparisonExpression_loop sd (ts @ extra) expr cur) (parseComparisonExpression_loop sd ts expr cur)"
    and "unaffected (parseTermExpression sd (ts @ extra) cur) (parseTermExpression sd ts cur)"
    and "unaffected (parseTermExpression_loop sd (ts @ extra) expr cur) (parseTermExpression_loop sd ts expr cur)"
    and "unaffected (parseFactorExpression sd (ts @ extra) cur) (parseFactorExpression sd ts cur)"
    and "unaffected (parseFactorExpression_loop sd (ts @ extra) expr cur) (parseFactorExpression_loop sd ts expr cur)"
    and "unaffected (parseUnaryExpression sd (ts @ extra) cur) (parseUnaryExpression sd ts cur)"
    and "unaffected (parsePrimaryExpression sd (ts @ extra) cur) (parsePrimaryExpression sd ts cur)"
proof (induct sd ts cur and sd ts cur and sd ts expr cur and sd ts cur and sd ts expr cur and sd ts cur and sd ts expr cur and sd ts cur and sd ts expr cur and sd ts cur and sd ts expr cur and sd ts cur and sd ts expr cur and sd ts cur and sd ts cur rule: parse_induct)
  case (1 sd ts cur)
  show ?case
    unfolding parseExpression.simps [of sd ts cur] parseExpression.simps [of sd "ts @ extra" cur]
    by (rule 1)
next
  case (2 sd ts cur)
  show ?case
    unfolding parseOrExpression.simps [of sd ts cur] parseOrExpression.simps [of sd "ts @ extra" cur]
    by (intro unaffected_intros; (rule 2; (assumption | rule refl)))
next
  case (3 sd ts expr cur)
  show ?case
    unfolding parseOrExpression_loop.simps [of sd ts expr cur] parseOrExpression_loop.simps [of sd "ts @ extra" expr cur]
    by (intro unaffected_intros; (rule 3; (assumption | rule refl)))
next
  case (4 sd ts cur)
  show ?case
    unfolding parseAndExpression.simps [of sd ts cur] parseAndExpression.simps [of sd "ts @ extra" cur]
    by (intro unaffected_intros; (rule 4; (assumption | rule refl)))
next
  case (5 sd ts expr cur)
  show ?case
    unfolding parseAndExpression_loop.simps [of sd ts expr cur] parseAndExpression_loop.simps [of sd "ts @ extra" expr cur]
    by (intro unaffected_intros; (rule 5; (assumption | rule refl)))
next
  case (6 sd ts cur)
  show ?case
    unfolding parseEqualityExpression.simps [of sd ts cur] parseEqualityExpression.simps [of sd "ts @ extra" cur]
    by (intro unaffected_intros; (rule 6; (assumption | rule refl)))
next
  case (7 sd ts expr cur)
  show ?case
    unfolding parseEqualityExpression_loop.simps [of sd ts expr cur] parseEqualityExpression_loop.simps [of sd "ts @ extra" expr cur]
    by (intro unaffected_intros; (rule 7; (assumption | rule refl)))
next
  case (8 sd ts cur)
  show ?case
    unfolding parseComparisonExpression.simps [of sd ts cur] parseComparisonExpression.simps [of sd "ts @ extra" cur]
    by (intro unaffected_intros; (rule 8; (assumption | rule refl)))
next
  case (9 sd ts expr cur)
  show ?case
    unfolding parseComparisonExpression_loop.simps [of sd ts expr cur] parseComparisonExpression_loop.simps [of sd "ts @ extra" expr cur]
    by (intro unaffected_intros; (rule 9; (assumption | rule refl)))
next
  case (10 sd ts cur)
  show ?case
    unfolding parseTermExpression.simps [of sd ts cur] parseTermExpression.simps [of sd "ts @ extra" cur]
    by (intro unaffected_intros; (rule 10; (assumption | rule refl)))
next
  case (11 sd ts expr cur)
  show ?case
    unfolding parseTermExpression_loop.simps [of sd ts expr cur] parseTermExpression_loop.simps [of sd "ts @ extra" expr cur]
    by (intro unaffected_intros; (rule 11; (assumption | rule refl)))
next
  case (12 sd ts cur)
  show ?case
    unfolding parseFactorExpression.simps [of sd ts cur] parseFactorExpression.simps [of sd "ts @ extra" cur]
    by (intro unaffected_intros; (rule 12; (assumption | rule refl)))
next
  case (13 sd ts expr cur)
  show ?case
    unfolding parseFactorExpression_loop.simps [of sd ts expr cur] parseFactorExpression_loop.simps [of sd "ts @ extra" expr cur]
    by (intro unaffected_intros; (rule 13; (assumption | rule refl)))
next
  case (14 sd ts cur)
  show ?case
    unfolding parseUnaryExpression.simps [of sd ts cur] parseUnaryExpression.simps [of sd "ts @ extra" cur]
    by (intro unaffected_intros; (rule 14; (assumption | rule refl)))
next
  case (15 sd ts cur)
  show ?case
    unfolding parsePrimaryExpression.simps [of sd ts cur] parsePrimaryExpression.simps [of sd "ts @ extra" cur]
    by (intro unaffected_intros; (rule 15; (assumption | rule refl)))
qed

lemmas unaffected_expr = unaffected_parseExpression(1)

lemma unaffected_parseSelectList:
  "unaffected (parseSelectList sd (ts @ extra) sl cur) (parseSelectList sd ts sl cur)"
proof (induction sd ts sl cur rule: parseSelectList.induct)
  case (1 sd ts sl cur)
  show ?case
    unfolding parseSelectList.simps [of sd ts sl cur] parseSelectList.simps [of sd "ts @ extra" sl cur]
    by (intro unaffected_intros unaffected_expr; (rule 1; (assumption | rule refl)))
qed

lemma unaffected_parseOrderByList:
  "unaffected (parseOrderByList (ts @ extra) ob cur) (parseOrderByList ts ob cur)"
proof (induction ts ob cur rule: parseOrderByList.induct)
  case (1 ts ob cur)
  show ?case
    unfolding parseOrderByList.simps [of ts ob cur] parseOrderByList.simps [of "ts @ extra" ob cur]
    by (intro unaffected_intros unaffected_expr unaffected_parseSelectList; (rule 1; (assumption | rule refl)))
qed

lemma unaffected_parseSelect_where:
  "unaffected (parseSelect_where sd (ts @ extra) stmt cur) (parseSelect_where sd ts stmt cur)"
  unfolding parseSelect_where_def
  by (intro unaffected_intros unaffected_expr unaffected_parseSelectList unaffected_parseOrderByList)

lemma unaffected_parseSelect_order_by:
  "unaffected (parseSelect_order_by (ts @ extra) stmt cur) (parseSelect_order_by ts stmt cur)"
  unfolding parseSelect_order_by_def
  by (intro unaffected_intros unaffected_expr unaffected_parseSelectList unaffected_parseOrderByList unaffected_parseSelect_where)

lemma unaffected_parseSelect_limit:
  "unaffected (parseSelect_limit (ts @ extra) stmt cur) (parseSelect_limit ts stmt cur)"
  unfolding parseSelect_limit_def
  by (intro unaffected_intros unaffected_expr unaffected_parseSelectList unaffected_parseOrderByList unaffected_parseSelect_where unaffected_parseSelect_order_by)

lemma unaffected_parseSelectStatement:
  "unaffected (parseSelectStatement sd (ts @ extra) cur) (parseSelectStatement sd ts cur)"
  unfolding parseSelectStatement_def
  by (intro unaffected_intros unaffected_expr unaffected_parseSelectList unaffected_parseOrderByList unaffected_parseSelect_where unaffected_parseSelect_order_by unaffected_parseSelect_limit)

lemma unaffected_parseInsertColumns:
  "unaffected (parseInsertColumns (ts @ extra) cols cur) (parseInsertColumns ts cols cur)"
proof (induction ts cols cur rule: parseInsertColumns.induct)
  case (1 ts cols cur)
  show ?case
    unfolding parseInsertColumns.simps [of ts cols cur] parseInsertColumns.simps [of "ts @ extra" cols cur]
    by (intro unaffected_intros unaffected_expr unaffected_parseSelectList unaffected_parseOrderByList unaffected_parseSelect_where unaffected_parseSelect_order_by unaffected_parseSelect_limit unaffected_parseSelectStatement; (rule 1; (assumption | rule refl)))
qed

lemma unaffected_parseValueList:
  "unaffected (parseValueList sd (ts @ extra) vs cur) (parseValueList sd ts vs cur)"
proof (induction sd ts vs cur rule: parseValueList.induct)
  case (1 sd ts vs cur)
  show ?case
    unfolding parseValueList.simps [of sd ts vs cur] parseValueList.simps [of sd "ts @ extra" vs cur]
    by (intro unaffected_intros unaffected_expr unaffected_parseSelectList unaffected_parseOrderByList unaffected_parseSelect_where unaffected_parseSelect_order_by unaffected_parseSelect_limit unaffected_parseSelectStatement unaffected_parseInsertColumns; (rule 1; (assumption | rule refl)))
qed

lemma unaffected_parseValueLists:
  "unaffected (parseValueLists sd (ts @ extra) vss cur) (parseValueLists sd ts vss cur)"
proof (induction sd ts vss cur rule: parseValueLists.induct)
  case (1 sd ts vss cur)
  show ?case
    unfolding parseValueLists.simps [of sd ts vss cur] parseValueLists.simps [of sd "ts @ extra" vss cur]
    by (intro unaffected_intros unaffected_expr unaffected_parseSelectList unaffected_parseOrderByList unaffected_parseSelect_where unaffected_parseSelect_order_by unaffected_parseSelect_limit unaffected_parseSelectStatement unaffected_parseInsertColumns unaffected_parseValueList; (rule 1; (assumption | rule refl)))
qed

lemma unaffected_parseInsertStatement:
  "unaffected (parseInsertStatement sd (ts @ extra) cur) (parseInsertStatement sd ts cur)"
  unfolding parseInsertStatement_def
  by (intro unaffected_intros unaffected_expr unaffected_parseSelectList unaffected_parseOrderByList unaffected_parseSelect_where unaffected_parseSelect_order_by unaffected_parseSelect_limit unaffected_parseSelectStatement unaffected_parseInsertColumns unaffected_parseValueList unaffected_parseValueLists)

lemma unaffected_parseColumnConstraints:
  "unaffected (parseColumnConstraints (ts @ extra) nl pk cur) (parseColumnConstraints ts nl pk cur)"
proof (induction ts nl pk cur rule: parseColumnConstraints.induct)
  case (1 ts nl pk cur)
  show ?case
    unfolding parseColumnConstraints.simps [of ts nl pk cur] parseColumnConstraints.simps [of "ts @ extra" nl pk cur]
    by (intro unaffected_intros unaffected_expr unaffected_parseSelectList unaffected_parseOrderByList unaffected_parseSelect_where unaffected_parseSelect_order_by unaffected_parseSelect_limit unaffected_parseSelectStatement unaffected_parseInsertColumns unaffected_parseValueList unaffected_parseValueLists unaffected_parseInsertStatement; (rule 1; (assumption | rule refl)))
qed

lemma unaffected_parseColumnDefinitions:
  "unaffected (parseColumnDefinitions (ts @ extra) cols cur) (parseColumnDefinitions ts cols cur)"
proof (induction ts cols cur rule: parseColumnDefinitions.induct)
  case (1 ts cols cur)
  show ?case
    unfolding parseColumnDefinitions.simps [of ts cols cur] parseColumnDefinitions.simps [of "ts @ extra" cols cur]
    by (intro unaffected_intros unaffected_expr unaffected_parseSelectList unaffected_parseOrderByList unaffected_parseSelect_where unaffected_parseSelect_order_by unaffected_parseSelect_limit unaffected_parseSelectStatement unaffected_parseInsertColumns unaffected_parseValueList unaffected_parseValueLists unaffected_parseInsertStatement unaffected_parseColumnConstraints; (rule 1; (assumption | rule refl)))
qed

lemma unaffected_parseCreateTableStatement:
  "unaffected (parseCreateTableStatement (ts @ extra) cur) (parseCreateTableStatement ts cur)"
  unfolding parseCreateTableStatement_def
  by (intro unaffected_intros unaffected_expr unaffected_parseSelectList unaffected_parseOrderByList unaffected_parseSelect_where unaffected_parseSelect_order_by unaffected_parseSelect_limit unaffected_parseSelectStatement unaffected_parseInsertColumns unaffected_parseValueList unaffected_parseValueLists unaffected_parseInsertStatement unaffected_parseColumnConstraints unaffected_parseColumnDefinitions)

lemma unaffected_parseDropTableStatement:
  "unaffected (parseDropTableStatement (ts @ extra) cur) (parseDropTableStatement ts cur)"
  unfolding parseDropTableStatement_def
  by (intro unaffected_intros unaffected_expr unaffected_parseSelectList unaffected_parseOrderByList unaffected_parseSelect_where unaffected_parseSelect_order_by unaffected_parseSelect_limit unaffected_parseSelectStatement unaffected_parseInsertColumns unaffected_parseValueList unaffected_parseValueLists unaffected_parseInsertStatement unaffected_parseColumnConstraints unaffected_parseColumnDefinitions unaffected_parseCreateTableStatement)

lemma unaffected_parseStatement:
  "unaffected (parseStatement sd (ts @ extra) cur) (parseStatement sd ts cur)"
  unfolding parseStatement_def
  by (intro unaffected_intros unaffected_expr unaffected_parseSelectList unaffected_parseOrderByList unaffected_parseSelect_where unaffected_parseSelect_order_by unaffected_parseSelect_limit unaffected_parseSelectStatement unaffected_parseInsertColumns unaffected_parseValueList unaffected_parseValueLists unaffected_parseInsertStatement unaffected_parseColumnConstraints unaffected_parseColumnDefinitions unaffected_parseCreateTableStatement unaffected_parseDropTableStatement)


section \<open>Example inputs\<close>

text \<open>A backend whose module verifies and whose JIT accepts it, the same backend for an
  engine whose constructor obtained no JIT, and a REAL conversion that always throws (no
  example below has a REAL literal).\<close>

definition example_backend :: Backend where
  "example_backend = \<lparr>verifyModule_fails = False, jit_created = True, addIRModule_fails = False\<rparr>"

definition no_jit_backend :: Backend where
  "no_jit_backend = \<lparr>verifyModule_fails = False, jit_created = False, addIRModule_fails = False\<rparr>"

definition no_stod :: "string \<Rightarrow> double option" where
  "no_stod s = None"

text \<open>A session: the statements are executed one after the other on the same engine, and
  the outcome of the last one is returned.\<close>

fun execute_all ::
  "Backend \<Rightarrow> (string \<Rightarrow> double option) \<Rightarrow> QueryEngine \<Rightarrow> string list
     \<Rightarrow> (Row list \<times> QueryEngine) result" where
  "execute_all be sd eng [] = Inr ([], eng)"
| "execute_all be sd eng (sql # rest) =
     (case execute be sd eng sql of
        Inl f \<Rightarrow> Inl f
      | Inr (rs, eng') \<Rightarrow> if rest = [] then Inr (rs, eng') else execute_all be sd eng' rest)"


text \<open>Engines without a JIT: a table \<^verbatim>\<open>t\<close> with one INTEGER column \<^verbatim>\<open>c\<close> holding the
  rows (3), (1), (2), the same table without rows, and a table \<^verbatim>\<open>t\<close> with two INTEGER
  columns \<^verbatim>\<open>a\<close> and \<^verbatim>\<open>b\<close>, with the row (1, 2) and without rows. Each is the state in
  which a session of CREATE TABLE and INSERT statements leaves a new engine.\<close>

definition engine_321 :: QueryEngine where
  "engine_321 =
     \<lparr>database =
        \<lparr>tables = [''t'' \<mapsto>
           \<lparr>tbl_name = ''t'',
            schema = addColumn empty_Schema
                       \<lparr>col_name = ''c'', col_type = INTEGER, nullable = True,
                        primary_key = False\<rparr>,
            rows = [[IntV 3], [IntV 1], [IntV 2]]\<rparr>]\<rparr>,
      results = [], last_error = [], llvm_context = True, llvm_module = True\<rparr>"

definition engine_c :: QueryEngine where
  "engine_c =
     \<lparr>database =
        \<lparr>tables = [''t'' \<mapsto>
           \<lparr>tbl_name = ''t'',
            schema = addColumn empty_Schema
                       \<lparr>col_name = ''c'', col_type = INTEGER, nullable = True,
                        primary_key = False\<rparr>,
            rows = []\<rparr>]\<rparr>,
      results = [], last_error = [], llvm_context = True, llvm_module = True\<rparr>"

definition engine_ab :: QueryEngine where
  "engine_ab =
     \<lparr>database =
        \<lparr>tables = [''t'' \<mapsto>
           \<lparr>tbl_name = ''t'',
            schema = addColumn
                       (addColumn empty_Schema
                          \<lparr>col_name = ''a'', col_type = INTEGER, nullable = True,
                           primary_key = False\<rparr>)
                       \<lparr>col_name = ''b'', col_type = INTEGER, nullable = True,
                        primary_key = False\<rparr>,
            rows = [[IntV 1, IntV 2]]\<rparr>]\<rparr>,
      results = [], last_error = [], llvm_context = True, llvm_module = True\<rparr>"

definition engine_ab0 :: QueryEngine where
  "engine_ab0 =
     \<lparr>database =
        \<lparr>tables = [''t'' \<mapsto>
           \<lparr>tbl_name = ''t'',
            schema = addColumn
                       (addColumn empty_Schema
                          \<lparr>col_name = ''a'', col_type = INTEGER, nullable = True,
                           primary_key = False\<rparr>)
                       \<lparr>col_name = ''b'', col_type = INTEGER, nullable = True,
                        primary_key = False\<rparr>,
            rows = []\<rparr>]\<rparr>,
      results = [], last_error = [], llvm_context = True, llvm_module = True\<rparr>"

lemma validateRow_loop_one:
  "validateRow_loop
     \<lparr>columns = [\<lparr>col_name = ''c'', col_type = INTEGER, nullable = True,
                   primary_key = False\<rparr>], column_index = ix\<rparr> [IntV i] 0 = Inr True"
  by (simp add: validateRow_loop.simps getColumn_def)

lemma validateRow_loop_two:
  "validateRow_loop
     \<lparr>columns = [\<lparr>col_name = ''a'', col_type = INTEGER, nullable = True,
                   primary_key = False\<rparr>,
                  \<lparr>col_name = ''b'', col_type = INTEGER, nullable = True,
                   primary_key = False\<rparr>], column_index = ix\<rparr> [IntV i, IntV j] 0 = Inr True"
  by (simp add: validateRow_loop.simps getColumn_def)

lemma create_c:
  "tokenize (new_Lexer ''CREATE TABLE t (c INTEGER)'') \<noteq> []"
  "parseStatement no_stod (tokenize (new_Lexer ''CREATE TABLE t (c INTEGER)'')) 0
     = Inr (CreateTable \<lparr>crt_table_name = ''t'',
              crt_columns = [\<lparr>col_name = ''c'', col_type = INTEGER, nullable = True,
                              primary_key = False\<rparr>]\<rparr>, 7)"
  by code_simp+

lemma create_ab:
  "tokenize (new_Lexer ''CREATE TABLE t (a INTEGER, b INTEGER)'') \<noteq> []"
  "parseStatement no_stod (tokenize (new_Lexer ''CREATE TABLE t (a INTEGER, b INTEGER)'')) 0
     = Inr (CreateTable \<lparr>crt_table_name = ''t'',
              crt_columns = [\<lparr>col_name = ''a'', col_type = INTEGER, nullable = True,
                              primary_key = False\<rparr>,
                             \<lparr>col_name = ''b'', col_type = INTEGER, nullable = True,
                              primary_key = False\<rparr>]\<rparr>, 10)"
  by code_simp+

lemma insert_321:
  "tokenize (new_Lexer ''INSERT INTO t VALUES (3),(1),(2);'') \<noteq> []"
  "parseStatement no_stod (tokenize (new_Lexer ''INSERT INTO t VALUES (3),(1),(2);'')) 0
     = Inr (Insert \<lparr>ins_table_name = ''t'', ins_columns = [],
                    ins_values = [[LiteralExpression (IntV 3)], [LiteralExpression (IntV 1)],
                                  [LiteralExpression (IntV 2)]]\<rparr>, 15)"
  by code_simp+

lemma insert_12:
  "tokenize (new_Lexer ''INSERT INTO t VALUES (1, 2);'') \<noteq> []"
  "parseStatement no_stod (tokenize (new_Lexer ''INSERT INTO t VALUES (1, 2);'')) 0
     = Inr (Insert \<lparr>ins_table_name = ''t'', ins_columns = [],
                    ins_values = [[LiteralExpression (IntV 1), LiteralExpression (IntV 2)]]\<rparr>,
            9)"
  by code_simp+

lemmas session_defs =
  generateCode_def visit_CreateTableStatement_def visit_InsertStatement_def createTable_def
  hasTable_def compileAndExecute_def getTable_def new_QueryEngine_def no_jit_backend_def
  empty_Database_def new_Table_def insertRow_def validateRow_def getColumnCount_def
  addColumn_def empty_Schema_def validateRow_loop_one validateRow_loop_two

lemma engine_c_reached:
  "execute_all no_jit_backend no_stod new_QueryEngine [''CREATE TABLE t (c INTEGER)'']
     = Inr ([], engine_c)"
  by (simp add: execute_parsed [OF create_c] session_defs engine_c_def)

lemma engine_321_reached:
  "execute_all no_jit_backend no_stod new_QueryEngine
        [''CREATE TABLE t (c INTEGER)'', ''INSERT INTO t VALUES (3),(1),(2);'']
     = Inr ([], engine_321)"
  by (simp add: execute_parsed [OF create_c] execute_parsed [OF insert_321] session_defs
        engine_321_def)

lemma engine_ab0_reached:
  "execute_all no_jit_backend no_stod new_QueryEngine
        [''CREATE TABLE t (a INTEGER, b INTEGER)'']
     = Inr ([], engine_ab0)"
  by (simp add: execute_parsed [OF create_ab] session_defs engine_ab0_def)

lemma engine_ab_reached:
  "execute_all no_jit_backend no_stod new_QueryEngine
        [''CREATE TABLE t (a INTEGER, b INTEGER)'', ''INSERT INTO t VALUES (1, 2);'']
     = Inr ([], engine_ab)"
  by (simp add: execute_parsed [OF create_ab] execute_parsed [OF insert_12] session_defs
        engine_ab_def)

lemma no_jit_backend_ok:
  "\<not> verifyModule_fails no_jit_backend \<and>
     (jit_created no_jit_backend \<longrightarrow> \<not> addIRModule_fails no_jit_backend)"
  "\<not> jit_created no_jit_backend"
  by (simp_all add: no_jit_backend_def)

lemma engine_321_table:
  "getTable (database engine_321) ''t''
     = Some \<lparr>tbl_name = ''t'',
            schema = addColumn empty_Schema
                       \<lparr>col_name = ''c'', col_type = INTEGER, nullable = True,
                        primary_key = False\<rparr>,
            rows = [[IntV 3], [IntV 1], [IntV 2]]\<rparr>"
  "llvm_context engine_321 \<and> llvm_module engine_321"
  by (simp_all add: engine_321_def getTable_def)


section \<open>The claims\<close>

subsection \<open>C6: what the lexer does with a character that starts no token\<close>

lemma tokenize_loop_no_INVALID:
  "\<forall>t \<in> set tokens. tok_type t \<noteq> INVALID \<Longrightarrow>
   \<forall>t \<in> set (tokenize_loop lx tokens). tok_type t \<noteq> INVALID"
proof (induction lx tokens rule: tokenize_loop.induct)
  case (1 lx tokens)
  show ?case
  proof (cases "hasNext lx")
    case False
    have "tokenize_loop lx tokens = tokens"
      by (subst tokenize_loop.simps) (rule if_not_P [OF False])
    then show ?thesis using "1.prems" by simp
  next
    case True
    obtain token lx1 where nt: "nextToken lx = (token, lx1)" by (cases "nextToken lx")
    let ?tokens1 = "if tok_type token \<noteq> INVALID then tokens @ [token] else tokens"
    have ok1: "\<forall>t \<in> set ?tokens1. tok_type t \<noteq> INVALID" using "1.prems" by simp
    show ?thesis
    proof (cases "tok_type token = EOF_TOKEN")
      case eof: True
      have eq: "tokenize_loop lx tokens = ?tokens1"
        using True nt eof by (subst tokenize_loop.simps) (simp add: Let_def)
      show ?thesis unfolding eq by (rule ok1)
    next
      case more: False
      have eq: "tokenize_loop lx tokens = tokenize_loop lx1 ?tokens1"
        using True nt more by (subst tokenize_loop.simps) (simp add: Let_def)
      show ?thesis
        unfolding eq by (rule "1.IH" [OF True nt [symmetric] refl more ok1])
    qed
  qed
qed

lemma nextToken_INVALID:
  assumes nx: "hasNext (skipWhitespace lx)"
    and c: "c = Lexer_peek (skipWhitespace lx)"
    and nq: "c \<noteq> CHR 0x27" "c \<noteq> CHR 0x22"
    and nd: "\<not> isDigit c" and na: "\<not> isAlpha c"
    and np: "c \<notin> set ''(),;.+-*/=<>''"
    and bang: "c = CHR ''!'' \<longrightarrow>
       \<not> (hasNext (snd (Lexer_advance (skipWhitespace lx)))
            \<and> Lexer_peek (snd (Lexer_advance (skipWhitespace lx))) = CHR ''='')"
  shows "tok_type (fst (nextToken lx)) = INVALID \<and> tok_value (fst (nextToken lx)) = [c]"
proof -
  let ?lx = "skipWhitespace lx"
  have nocm: "\<not> (Lexer_peek ?lx = CHR ''-'' \<and> position ?lx + 1 < length (input ?lx)
           \<and> input ?lx ! (position ?lx + 1) = CHR ''-'')"
    using np c by simp
  have nostr: "\<not> (Lexer_peek ?lx = CHR 0x27 \<or> Lexer_peek ?lx = CHR 0x22)" using nq c by simp
  have nodig: "\<not> isDigit (Lexer_peek ?lx)" using nd c by simp
  have noal: "\<not> isAlpha (Lexer_peek ?lx)" using na c by simp
  have eq: "nextToken lx = nextToken_switch ?lx c"
    unfolding c
    by (subst nextToken.simps)
       (simp only: Let_def nx not_True_eq_False if_False if_not_P [OF nocm] if_not_P [OF nostr]
          if_not_P [OF nodig] if_not_P [OF noal])
  show ?thesis
  proof (cases "c = CHR ''!''")
    case True
    then show ?thesis
      unfolding eq using bang by (simp add: nextToken_switch_def Let_def makeToken_def)
  next
    case False
    then show ?thesis
      unfolding eq using np by (simp add: nextToken_switch_def Let_def makeToken_def)
  qed
qed

text \<open>
  Claim C6, as the code has it. \<^verbatim>\<open>tokenize\<close> is a total function, so lexing never raises.
  When the first character \<open>c\<close> after the leading whitespace starts no token (it is no
  quote, digit, letter, underscore or operator character, or it is a \<^verbatim>\<open>!\<close> that no
  \<^verbatim>\<open>=\<close> follows), \<^verbatim>\<open>nextToken\<close> returns an INVALID token whose text is that single
  character. \<^verbatim>\<open>tokenize\<close> appends a token only \<^verbatim>\<open>if (token.type != TokenType::INVALID)\<close>,
  so no INVALID token is ever in the sequence it returns: the parser never sees one.
\<close>

theorem tokenize_drops_INVALID:
  "(\<forall>t \<in> set (tokenize lx). tok_type t \<noteq> INVALID)
   \<and> (hasNext (skipWhitespace lx) \<and> c = Lexer_peek (skipWhitespace lx)
        \<and> c \<noteq> CHR 0x27 \<and> c \<noteq> CHR 0x22 \<and> \<not> isDigit c \<and> \<not> isAlpha c
        \<and> c \<notin> set ''(),;.+-*/=<>''
        \<and> (c = CHR ''!'' \<longrightarrow>
             \<not> (hasNext (snd (Lexer_advance (skipWhitespace lx)))
                  \<and> Lexer_peek (snd (Lexer_advance (skipWhitespace lx))) = CHR ''=''))
      \<longrightarrow> tok_type (fst (nextToken lx)) = INVALID \<and> tok_value (fst (nextToken lx)) = [c])"
proof (rule conjI)
  show "\<forall>t \<in> set (tokenize lx). tok_type t \<noteq> INVALID"
    unfolding tokenize_def by (rule tokenize_loop_no_INVALID) simp
next
  show "hasNext (skipWhitespace lx) \<and> c = Lexer_peek (skipWhitespace lx)
        \<and> c \<noteq> CHR 0x27 \<and> c \<noteq> CHR 0x22 \<and> \<not> isDigit c \<and> \<not> isAlpha c
        \<and> c \<notin> set ''(),;.+-*/=<>''
        \<and> (c = CHR ''!'' \<longrightarrow>
             \<not> (hasNext (snd (Lexer_advance (skipWhitespace lx)))
                  \<and> Lexer_peek (snd (Lexer_advance (skipWhitespace lx))) = CHR ''=''))
      \<longrightarrow> tok_type (fst (nextToken lx)) = INVALID \<and> tok_value (fst (nextToken lx)) = [c]"
  proof (rule impI)
    assume a: "hasNext (skipWhitespace lx) \<and> c = Lexer_peek (skipWhitespace lx)
        \<and> c \<noteq> CHR 0x27 \<and> c \<noteq> CHR 0x22 \<and> \<not> isDigit c \<and> \<not> isAlpha c
        \<and> c \<notin> set ''(),;.+-*/=<>''
        \<and> (c = CHR ''!'' \<longrightarrow>
             \<not> (hasNext (snd (Lexer_advance (skipWhitespace lx)))
                  \<and> Lexer_peek (snd (Lexer_advance (skipWhitespace lx))) = CHR ''=''))"
    show "tok_type (fst (nextToken lx)) = INVALID \<and> tok_value (fst (nextToken lx)) = [c]"
      by (rule nextToken_INVALID) (use a in blast)+
  qed
qed

lemma ex_tok: "map tok_type (tokenize (new_Lexer '' @ 1'')) = [INTEGER_LITERAL]"
  by code_simp

lemma ex_sw: "skipWhitespace (new_Lexer '' @ 1'') = \<lparr>input = '' @ 1'', position = 1, line = 1, column = 2\<rparr>"
  by code_simp

theorem tokenize_drops_INVALID_witness:
  "map tok_type (tokenize (new_Lexer '' @ 1'')) = [INTEGER_LITERAL]
   \<and> tok_type (fst (nextToken (new_Lexer '' @ 1''))) = INVALID
   \<and> tok_value (fst (nextToken (new_Lexer '' @ 1''))) = ''@''"
proof -
  have h: "hasNext (skipWhitespace (new_Lexer '' @ 1''))
      \<and> CHR ''@'' = Lexer_peek (skipWhitespace (new_Lexer '' @ 1''))
      \<and> CHR ''@'' \<noteq> CHR 0x27 \<and> CHR ''@'' \<noteq> CHR 0x22 \<and> \<not> isDigit CHR ''@'' \<and> \<not> isAlpha CHR ''@''
        \<and> CHR ''@'' \<notin> set ''(),;.+-*/=<>''
        \<and> (CHR ''@'' = CHR ''!'' \<longrightarrow>
             \<not> (hasNext (snd (Lexer_advance (skipWhitespace (new_Lexer '' @ 1''))))
                  \<and> Lexer_peek (snd (Lexer_advance (skipWhitespace (new_Lexer '' @ 1'')))) = CHR ''=''))"
    unfolding ex_sw by (simp add: hasNext_def Lexer_peek_def isDigit_def isAlpha_def)
  have b: "tok_type (fst (nextToken (new_Lexer '' @ 1''))) = INVALID
   \<and> tok_value (fst (nextToken (new_Lexer '' @ 1''))) = ''@''"
    by (rule mp [OF conjunct2 [OF tokenize_drops_INVALID [of "new_Lexer '' @ 1''" "CHR ''@''"]] h])
  show ?thesis using ex_tok b by simp
qed

text \<open>
  The claim as the specification words it fails on \<^verbatim>\<open>SELECT @ FROM t \<close>: the sequence
  returned holds no INVALID token for the \<^verbatim>\<open>@\<close>.
\<close>

theorem tokenize_INVALID_counterexample:
  "tok_type (fst (nextToken (new_Lexer ''SELECT @ FROM t ''))) = SELECT
   \<and> map tok_type (tokenize (new_Lexer ''SELECT @ FROM t '')) = [SELECT, FROM, IDENTIFIER, EOF_TOKEN]
   \<and> INVALID \<notin> set (map tok_type (tokenize (new_Lexer ''SELECT @ FROM t '')))"
  by code_simp

subsection \<open>C7: the end-of-input token\<close>

text \<open>
  Claim C7 says that every token sequence ends with one EOF token. The loop of
  \<^verbatim>\<open>tokenize\<close> runs \<^verbatim>\<open>while (hasNext())\<close>, so \<^verbatim>\<open>nextToken\<close> is not called once the
  last character has been consumed: unless whitespace or a comment ends the input, no
  EOF token is appended, and for the empty input no token at all. The parser's
  \<^verbatim>\<open>isAtEnd\<close> expects the EOF token.
\<close>

theorem tokenize_without_EOF:
  "map tok_type (tokenize (new_Lexer ''DROP TABLE t'')) = [DROP, TABLE, IDENTIFIER]
   \<and> tokenize (new_Lexer []) = []
   \<and> map tok_type (tokenize (new_Lexer ''DROP TABLE t '')) = [DROP, TABLE, IDENTIFIER, EOF_TOKEN]"
  by code_simp

subsection \<open>C9: what \<open>execute\<close> does when a stage fails\<close>

text \<open>
  Claim C9 says that whenever a stage fails, \<^verbatim>\<open>execute\<close> returns no rows and records the
  message of the failure. The handler of \<^verbatim>\<open>execute\<close> catches exceptions, and these calls
  fail without one. \<^verbatim>\<open>SELECT * FROM users\<close> and \<^verbatim>\<open>SELECT\<close> have no EOF token (see C7),
  and the parser reads \<^verbatim>\<open>tokens_\<close> past its end: the call has no defined behaviour. In an
  engine with a JIT, the first successful call moves \<^verbatim>\<open>module_\<close> and \<^verbatim>\<open>context_\<close> into the
  JIT, and the next statement that reaches \<^verbatim>\<open>llvm::verifyModule(*module_, ...)\<close>
  dereferences a null pointer. Where an exception is caught, the text recorded is
  \<^verbatim>\<open>e.what()\<close> read as a C string: a parse error that quotes a string literal with a NUL
  character in it is recorded up to that character only.
\<close>

theorem execute_without_defined_outcome:
  "map_sum id fst (execute no_jit_backend no_stod new_QueryEngine ''SELECT * FROM users'')
     = Inl UndefinedBehaviour
   \<and> map_sum id fst (execute no_jit_backend no_stod new_QueryEngine ''SELECT'')
     = Inl UndefinedBehaviour
   \<and> map_sum id fst
        (execute_all example_backend no_stod new_QueryEngine
           [''CREATE TABLE a (x INTEGER)'', ''DROP TABLE a''])
     = Inl UndefinedBehaviour
   \<and> map_sum id (\<lambda>(rs, eng). (rs, last_error eng))
        (execute no_jit_backend no_stod new_QueryEngine
           (''DROP '' @ [CHR 0x27, CHR ''a'', CHR 0x00, CHR ''b'', CHR 0x27]))
       = Inr ([], ''Parse error at token 1: Expected 'TABLE' after DROP (got 'a'')
   \<and> parseStatement no_stod
        (tokenize (new_Lexer (''DROP '' @ [CHR 0x27, CHR ''a'', CHR 0x00, CHR ''b'', CHR 0x27]))) 0
       = Inl (Exception (''Parse error at token 1: Expected 'TABLE' after DROP (got 'a''
                          @ [CHR 0x00, CHR ''b'', CHR 0x27, CHR '')'']))"
  by code_simp

subsection \<open>C1: ORDER BY and LIMIT\<close>

text \<open>
  Claim C1, as the code has it. \<^verbatim>\<open>visit(SelectStatement&)\<close> reads the table name and the
  WHERE clause of the statement and nothing else: the ORDER BY columns, the direction and
  the LIMIT are parsed and stored in the node, and never read. A SELECT statement that
  parses does what a SELECT statement does whose parse differs only in those three
  fields. When the table exists, \<^verbatim>\<open>context_\<close> and \<^verbatim>\<open>module_\<close> are in place, the module
  verifies and the JIT, if there is one, accepts it, the call returns the included rows,
  all of them, in the order in which the table stores them, and records no error.
\<close>

theorem select_ignores_order_by_and_limit:
  assumes "tokenize (new_Lexer sql) \<noteq> []"
    and "parseStatement sd (tokenize (new_Lexer sql)) 0 = Inr (Select node, cur)"
    and "tokenize (new_Lexer sql') \<noteq> []"
    and "parseStatement sd (tokenize (new_Lexer sql')) 0
           = Inr (Select (node\<lparr>order_by := ob, order_desc := d, limit := n\<rparr>), cur')"
  shows "execute be sd eng sql' = execute be sd eng sql
     \<and> (getTable (database eng) (from_table node) = Some t
          \<and> llvm_context eng \<and> llvm_module eng
          \<and> \<not> verifyModule_fails be \<and> (jit_created be \<longrightarrow> \<not> addIRModule_fails be)
        \<longrightarrow> execute be sd eng sql' =
              Inr (filter (include_row node) (rows t),
                   eng\<lparr>results := filter (include_row node) (rows t), last_error := [],
                       llvm_context := \<not> jit_created be, llvm_module := \<not> jit_created be\<rparr>))"
proof (rule conjI)
  let ?node' = "node\<lparr>order_by := ob, order_desc := d, limit := n\<rparr>"
  have i: "include_row ?node' = include_row node"
    by (simp add: include_row_def fun_eq_iff)
  have v: "visit_SelectStatement ?node' = visit_SelectStatement node"
    by (simp add: visit_SelectStatement_rows i fun_eq_iff split: option.splits)
  show same: "execute be sd eng sql' = execute be sd eng sql"
    by (simp add: execute_parsed [OF assms(1,2)] execute_parsed [OF assms(3,4)]
          generateCode_def v)
  show "getTable (database eng) (from_table node) = Some t
          \<and> llvm_context eng \<and> llvm_module eng
          \<and> \<not> verifyModule_fails be \<and> (jit_created be \<longrightarrow> \<not> addIRModule_fails be)
        \<longrightarrow> execute be sd eng sql' =
              Inr (filter (include_row node) (rows t),
                   eng\<lparr>results := filter (include_row node) (rows t), last_error := [],
                       llvm_context := \<not> jit_created be, llvm_module := \<not> jit_created be\<rparr>)"
    unfolding same using execute_Select [OF assms(1,2)] by blast
qed

lemma t321_tokens:
  "tokenize (new_Lexer ''SELECT * FROM t;'') \<noteq> []"
  "tokenize (new_Lexer ''SELECT * FROM t ORDER BY c LIMIT 2'') \<noteq> []"
  by code_simp+

lemma t321_parse:
  "parseStatement no_stod (tokenize (new_Lexer ''SELECT * FROM t;'')) 0
     = Inr (Select (new_SelectStatement\<lparr>select_list := [ColumnExpression [] ''*''],
                                         from_table := ''t''\<rparr>), 4)"
  "parseStatement no_stod (tokenize (new_Lexer ''SELECT * FROM t ORDER BY c LIMIT 2'')) 0
     = Inr (Select (new_SelectStatement\<lparr>select_list := [ColumnExpression [] ''*''],
                                         from_table := ''t''\<rparr>
                      \<lparr>order_by := [''c''], order_desc := False, limit := 2\<rparr>), 9)"
  by code_simp+

theorem select_ignores_order_by_and_limit_witness:
  "execute no_jit_backend no_stod engine_321 ''SELECT * FROM t ORDER BY c LIMIT 2''
     = execute no_jit_backend no_stod engine_321 ''SELECT * FROM t;''
   \<and> execute no_jit_backend no_stod engine_321 ''SELECT * FROM t ORDER BY c LIMIT 2''
     = Inr ([[IntV 3], [IntV 1], [IntV 2]],
            engine_321\<lparr>results := [[IntV 3], [IntV 1], [IntV 2]]\<rparr>)"
proof -
  let ?node = "new_SelectStatement\<lparr>select_list := [ColumnExpression [] ''*''],
                                         from_table := ''t''\<rparr>"
  let ?t = "\<lparr>tbl_name = ''t'',
            schema = addColumn empty_Schema
                       \<lparr>col_name = ''c'', col_type = INTEGER, nullable = True,
                        primary_key = False\<rparr>,
            rows = [[IntV 3], [IntV 1], [IntV 2]]\<rparr>"
  note th = select_ignores_order_by_and_limit
              [OF t321_tokens(1) t321_parse(1) t321_tokens(2) t321_parse(2),
               of no_jit_backend engine_321 ?t]
  have pre: "getTable (database engine_321) (from_table ?node) = Some ?t
          \<and> llvm_context engine_321 \<and> llvm_module engine_321
          \<and> \<not> verifyModule_fails no_jit_backend
          \<and> (jit_created no_jit_backend \<longrightarrow> \<not> addIRModule_fails no_jit_backend)"
    using engine_321_table no_jit_backend_ok by simp
  have f: "filter (include_row ?node) (rows ?t) = [[IntV 3], [IntV 1], [IntV 2]]"
    by (simp add: include_row_def new_SelectStatement_def)
  have e: "engine_321\<lparr>results := [[IntV 3], [IntV 1], [IntV 2]], last_error := [],
              llvm_context := \<not> jit_created no_jit_backend,
              llvm_module := \<not> jit_created no_jit_backend\<rparr>
            = engine_321\<lparr>results := [[IntV 3], [IntV 1], [IntV 2]]\<rparr>"
    by (simp add: engine_321_def no_jit_backend_def)
  show ?thesis
  proof (rule conjI)
    show "execute no_jit_backend no_stod engine_321 ''SELECT * FROM t ORDER BY c LIMIT 2''
     = execute no_jit_backend no_stod engine_321 ''SELECT * FROM t;''"
      by (rule conjunct1 [OF th])
    show "execute no_jit_backend no_stod engine_321 ''SELECT * FROM t ORDER BY c LIMIT 2''
     = Inr ([[IntV 3], [IntV 1], [IntV 2]],
            engine_321\<lparr>results := [[IntV 3], [IntV 1], [IntV 2]]\<rparr>)"
      by (rule mp [OF conjunct2 [OF th] pre, unfolded f e])
  qed
qed

text \<open>
  The claim as the specification words it fails on its own example, in an engine without
  a JIT: on the rows (3), (1), (2), \<^verbatim>\<open>SELECT * FROM t ORDER BY c LIMIT 2\<close> returns
  (3), (1), (2) and not (1), (2).
\<close>

theorem order_by_limit_counterexample:
  "map_sum id fst
     (execute_all no_jit_backend no_stod new_QueryEngine
        [''CREATE TABLE t (c INTEGER)'', ''INSERT INTO t VALUES (3),(1),(2);'',
         ''SELECT * FROM t ORDER BY c LIMIT 2''])
   = Inr [[IntV 3], [IntV 1], [IntV 2]]
   \<and> [[IntV 3], [IntV 1], [IntV 2]] \<noteq> [[IntV 1], [IntV 2]]"
  by code_simp

subsection \<open>C2: the select list\<close>

text \<open>
  Claim C2, as the code has it. \<^verbatim>\<open>visit(SelectStatement&)\<close> never reads the select list:
  each included row is appended to the results as the table stores it
  (\<^verbatim>\<open>results_.push_back(row)\<close>). A SELECT statement that parses does what a SELECT
  statement does whose parse differs only in the select list. When the table exists,
  \<^verbatim>\<open>context_\<close> and \<^verbatim>\<open>module_\<close> are in place, the module verifies and the JIT, if there is
  one, accepts it, the call succeeds and every row it returns is a full stored row of
  the table.
\<close>

theorem select_ignores_select_list:
  assumes "tokenize (new_Lexer sql) \<noteq> []"
    and "parseStatement sd (tokenize (new_Lexer sql)) 0 = Inr (Select node, cur)"
    and "tokenize (new_Lexer sql') \<noteq> []"
    and "parseStatement sd (tokenize (new_Lexer sql')) 0
           = Inr (Select (node\<lparr>select_list := sl\<rparr>), cur')"
  shows "execute be sd eng sql' = execute be sd eng sql
     \<and> (getTable (database eng) (from_table node) = Some t
          \<and> llvm_context eng \<and> llvm_module eng
          \<and> \<not> verifyModule_fails be \<and> (jit_created be \<longrightarrow> \<not> addIRModule_fails be)
        \<longrightarrow> execute be sd eng sql' =
              Inr (filter (include_row node) (rows t),
                   eng\<lparr>results := filter (include_row node) (rows t), last_error := [],
                       llvm_context := \<not> jit_created be, llvm_module := \<not> jit_created be\<rparr>)
            \<and> set (filter (include_row node) (rows t)) \<subseteq> set (rows t))"
proof (rule conjI)
  let ?node' = "node\<lparr>select_list := sl\<rparr>"
  have i: "include_row ?node' = include_row node"
    by (simp add: include_row_def fun_eq_iff)
  have v: "visit_SelectStatement ?node' = visit_SelectStatement node"
    by (simp add: visit_SelectStatement_rows i fun_eq_iff split: option.splits)
  show same: "execute be sd eng sql' = execute be sd eng sql"
    by (simp add: execute_parsed [OF assms(1,2)] execute_parsed [OF assms(3,4)]
          generateCode_def v)
  show "getTable (database eng) (from_table node) = Some t
          \<and> llvm_context eng \<and> llvm_module eng
          \<and> \<not> verifyModule_fails be \<and> (jit_created be \<longrightarrow> \<not> addIRModule_fails be)
        \<longrightarrow> execute be sd eng sql' =
              Inr (filter (include_row node) (rows t),
                   eng\<lparr>results := filter (include_row node) (rows t), last_error := [],
                       llvm_context := \<not> jit_created be, llvm_module := \<not> jit_created be\<rparr>)
            \<and> set (filter (include_row node) (rows t)) \<subseteq> set (rows t)"
    unfolding same using execute_Select [OF assms(1,2)] by auto
qed

lemma tab_tokens:
  "tokenize (new_Lexer ''SELECT * FROM t;'') \<noteq> []"
  "tokenize (new_Lexer ''SELECT a FROM t;'') \<noteq> []"
  by code_simp+

lemma tab_parse:
  "parseStatement no_stod (tokenize (new_Lexer ''SELECT * FROM t;'')) 0
     = Inr (Select (new_SelectStatement\<lparr>select_list := [ColumnExpression [] ''*''],
                                         from_table := ''t''\<rparr>), 4)"
  "parseStatement no_stod (tokenize (new_Lexer ''SELECT a FROM t;'')) 0
     = Inr (Select (new_SelectStatement\<lparr>select_list := [ColumnExpression [] ''*''],
                                         from_table := ''t''\<rparr>
                      \<lparr>select_list := [ColumnExpression [] ''a'']\<rparr>), 4)"
  by code_simp+

theorem select_ignores_select_list_witness:
  "execute no_jit_backend no_stod engine_ab ''SELECT a FROM t;''
     = execute no_jit_backend no_stod engine_ab ''SELECT * FROM t;''
   \<and> execute no_jit_backend no_stod engine_ab ''SELECT a FROM t;''
     = Inr ([[IntV 1, IntV 2]], engine_ab\<lparr>results := [[IntV 1, IntV 2]]\<rparr>)"
proof -
  let ?t = "\<lparr>tbl_name = ''t'',
            schema = addColumn
                       (addColumn empty_Schema
                          \<lparr>col_name = ''a'', col_type = INTEGER, nullable = True,
                           primary_key = False\<rparr>)
                       \<lparr>col_name = ''b'', col_type = INTEGER, nullable = True,
                        primary_key = False\<rparr>,
            rows = [[IntV 1, IntV 2]]\<rparr>"
  let ?node = "new_SelectStatement\<lparr>select_list := [ColumnExpression [] ''*''],
                                         from_table := ''t''\<rparr>"
  note th = select_ignores_select_list
              [OF tab_tokens(1) tab_parse(1) tab_tokens(2) tab_parse(2),
               of no_jit_backend engine_ab ?t]
  have pre: "getTable (database engine_ab) (from_table ?node) = Some ?t
          \<and> llvm_context engine_ab \<and> llvm_module engine_ab
          \<and> \<not> verifyModule_fails no_jit_backend
          \<and> (jit_created no_jit_backend \<longrightarrow> \<not> addIRModule_fails no_jit_backend)"
    by (simp add: engine_ab_def getTable_def no_jit_backend_def)
  have f: "filter (include_row ?node) (rows ?t) = [[IntV 1, IntV 2]]"
    by (simp add: include_row_def new_SelectStatement_def)
  have e: "engine_ab\<lparr>results := [[IntV 1, IntV 2]], last_error := [],
              llvm_context := \<not> jit_created no_jit_backend,
              llvm_module := \<not> jit_created no_jit_backend\<rparr>
            = engine_ab\<lparr>results := [[IntV 1, IntV 2]]\<rparr>"
    by (simp add: engine_ab_def no_jit_backend_def)
  show ?thesis
  proof (rule conjI)
    show "execute no_jit_backend no_stod engine_ab ''SELECT a FROM t;''
     = execute no_jit_backend no_stod engine_ab ''SELECT * FROM t;''"
      by (rule conjunct1 [OF th])
    show "execute no_jit_backend no_stod engine_ab ''SELECT a FROM t;''
     = Inr ([[IntV 1, IntV 2]], engine_ab\<lparr>results := [[IntV 1, IntV 2]]\<rparr>)"
      by (rule conjunct1 [OF mp [OF conjunct2 [OF th] pre], unfolded f e])
  qed
qed

text \<open>
  The claim as the specification words it fails, in an engine without a JIT, on
  \<^verbatim>\<open>SELECT a FROM t;\<close> over a table with the columns \<^verbatim>\<open>a\<close> and \<^verbatim>\<open>b\<close> and the row (1, 2):
  the row returned is (1, 2), not the projected row (1).
\<close>

theorem select_list_counterexample:
  "map_sum id fst
     (execute_all no_jit_backend no_stod new_QueryEngine
        [''CREATE TABLE t (a INTEGER, b INTEGER)'', ''INSERT INTO t VALUES (1, 2);'',
         ''SELECT a FROM t;''])
   = Inr [[IntV 1, IntV 2]]
   \<and> [[IntV 1, IntV 2]] \<noteq> [[IntV 1]]"
  by code_simp

subsection \<open>C3: the WHERE clause\<close>

text \<open>
  Claim C3, as the code has it, for a SELECT statement that parses, over a table that
  exists, with \<^verbatim>\<open>context_\<close> and \<^verbatim>\<open>module_\<close> in place, a module that verifies and a JIT, if
  there is one, that accepts it. The call succeeds and records no error, whatever the
  WHERE expression is. Without a WHERE clause every stored row is returned. With a WHERE
  clause \<open>w\<close> the rows returned are those on which \<^verbatim>\<open>evaluateWhereClause\<close> is true, and
  \<^verbatim>\<open>evaluateWhereClause\<close> never looks at the row: the statement returns all the rows or
  none. A boolean literal has its value, AND and OR combine their operands, and
  everything else is true: a literal that is no boolean, a column, a unary expression
  (also \<^verbatim>\<open>NOT\<close>), a comparison or an arithmetic expression.
\<close>

theorem where_clause_is_all_or_nothing:
  assumes "tokenize (new_Lexer sql) \<noteq> []"
    and "parseStatement sd (tokenize (new_Lexer sql)) 0 = Inr (Select node, cur)"
    and "getTable (database eng) (from_table node) = Some t"
    and "llvm_context eng" and "llvm_module eng"
    and "\<not> verifyModule_fails be" and "jit_created be \<longrightarrow> \<not> addIRModule_fails be"
  shows "(where_clause node = None \<longrightarrow>
            execute be sd eng sql =
              Inr (rows t,
                   eng\<lparr>results := rows t, last_error := [],
                       llvm_context := \<not> jit_created be, llvm_module := \<not> jit_created be\<rparr>))
     \<and> (\<forall>w. where_clause node = Some w \<longrightarrow>
            execute be sd eng sql =
              Inr (filter (evaluateWhereClause w) (rows t),
                   eng\<lparr>results := filter (evaluateWhereClause w) (rows t), last_error := [],
                       llvm_context := \<not> jit_created be, llvm_module := \<not> jit_created be\<rparr>)
            \<and> filter (evaluateWhereClause w) (rows t)
                = (if evaluateWhereClause w [] then rows t else []))
     \<and> evaluateWhereClause (LiteralExpression (BoolV b)) row = b
     \<and> ((\<forall>b. v \<noteq> BoolV b) \<longrightarrow> evaluateWhereClause (LiteralExpression v) row)
     \<and> evaluateWhereClause (ColumnExpression tn cn) row
     \<and> evaluateWhereClause (UnaryExpression uop operand) row
     \<and> evaluateWhereClause (BinaryExpression l BinOp_AND r) row
          = (evaluateWhereClause l row \<and> evaluateWhereClause r row)
     \<and> evaluateWhereClause (BinaryExpression l BinOp_OR r) row
          = (evaluateWhereClause l row \<or> evaluateWhereClause r row)
     \<and> (bop \<noteq> BinOp_AND \<and> bop \<noteq> BinOp_OR \<longrightarrow> evaluateWhereClause (BinaryExpression l bop r) row)"
proof (intro conjI allI impI)
  assume n: "where_clause node = None"
  have "filter (include_row node) (rows t) = rows t" by (simp add: include_row_def n)
  then show "execute be sd eng sql =
              Inr (rows t,
                   eng\<lparr>results := rows t, last_error := [],
                       llvm_context := \<not> jit_created be, llvm_module := \<not> jit_created be\<rparr>)"
    using execute_Select [OF assms] by simp
next
  fix w
  assume w: "where_clause node = Some w"
  have "include_row node = evaluateWhereClause w" by (simp add: include_row_def fun_eq_iff w)
  then show "execute be sd eng sql =
              Inr (filter (evaluateWhereClause w) (rows t),
                   eng\<lparr>results := filter (evaluateWhereClause w) (rows t), last_error := [],
                       llvm_context := \<not> jit_created be, llvm_module := \<not> jit_created be\<rparr>)"
    using execute_Select [OF assms] by simp
next
  fix w
  have h: "\<And>row. evaluateWhereClause w row = evaluateWhereClause w []"
    by (rule evaluateWhereClause_row)
  show "filter (evaluateWhereClause w) (rows t)
                = (if evaluateWhereClause w [] then rows t else [])"
  proof (cases "evaluateWhereClause w []")
    case True
    then have "\<forall>x \<in> set (rows t). evaluateWhereClause w x" by (metis h)
    then show ?thesis using True by simp
  next
    case False
    then have "\<forall>x \<in> set (rows t). \<not> evaluateWhereClause w x" by (metis h)
    then show ?thesis using False by simp
  qed
next
  fix b' assume "\<forall>b. v \<noteq> BoolV b"
  then show "evaluateWhereClause (LiteralExpression v) row"
    by (cases v) auto
qed (simp_all add: Let_def)

lemma t321_where_tokens:
  "tokenize (new_Lexer ''SELECT * FROM t WHERE c = 1;'') \<noteq> []"
  by code_simp

lemma t321_where_parse:
  "parseStatement no_stod (tokenize (new_Lexer ''SELECT * FROM t WHERE c = 1;'')) 0
     = Inr (Select (new_SelectStatement
                      \<lparr>select_list := [ColumnExpression [] ''*''], from_table := ''t'',
                       where_clause := Some (BinaryExpression (ColumnExpression [] ''c'')
                                               BinOp_EQUAL (LiteralExpression (IntV 1)))\<rparr>), 8)"
  by code_simp

lemma t321_bool_tokens:
  "tokenize (new_Lexer ''SELECT * FROM t WHERE true;'') \<noteq> []"
  "tokenize (new_Lexer ''SELECT * FROM t WHERE false;'') \<noteq> []"
  by code_simp+

lemma t321_bool_parse:
  "parseStatement no_stod (tokenize (new_Lexer ''SELECT * FROM t WHERE true;'')) 0
     = Inr (Select (new_SelectStatement
                      \<lparr>select_list := [ColumnExpression [] ''*''], from_table := ''t'',
                       where_clause := Some (LiteralExpression (BoolV True))\<rparr>), 6)"
  "parseStatement no_stod (tokenize (new_Lexer ''SELECT * FROM t WHERE false;'')) 0
     = Inr (Select (new_SelectStatement
                      \<lparr>select_list := [ColumnExpression [] ''*''], from_table := ''t'',
                       where_clause := Some (LiteralExpression (BoolV False))\<rparr>), 6)"
  by code_simp+

theorem where_clause_is_all_or_nothing_witness:
  "execute no_jit_backend no_stod engine_321 ''SELECT * FROM t WHERE c = 1;''
     = Inr ([[IntV 3], [IntV 1], [IntV 2]],
            engine_321\<lparr>results := [[IntV 3], [IntV 1], [IntV 2]]\<rparr>)
   \<and> execute no_jit_backend no_stod engine_321 ''SELECT * FROM t WHERE true;''
     = Inr ([[IntV 3], [IntV 1], [IntV 2]],
            engine_321\<lparr>results := [[IntV 3], [IntV 1], [IntV 2]]\<rparr>)
   \<and> execute no_jit_backend no_stod engine_321 ''SELECT * FROM t WHERE false;''
     = Inr ([], engine_321\<lparr>results := []\<rparr>)"
proof -
  let ?t = "\<lparr>tbl_name = ''t'',
            schema = addColumn empty_Schema
                       \<lparr>col_name = ''c'', col_type = INTEGER, nullable = True,
                        primary_key = False\<rparr>,
            rows = [[IntV 3], [IntV 1], [IntV 2]]\<rparr>"
  have g: "\<And>w. getTable (database engine_321)
                   (from_table (new_SelectStatement
                      \<lparr>select_list := [ColumnExpression [] ''*''], from_table := ''t'',
                       where_clause := w\<rparr>)) = Some ?t"
    using engine_321_table(1) by simp
  have l: "llvm_context engine_321" "llvm_module engine_321"
    using engine_321_table(2) by simp_all
  have b: "\<not> verifyModule_fails no_jit_backend"
    "jit_created no_jit_backend \<longrightarrow> \<not> addIRModule_fails no_jit_backend"
    by (simp_all add: no_jit_backend_def)
  have e: "\<And>rs. engine_321\<lparr>results := rs, last_error := [],
              llvm_context := \<not> jit_created no_jit_backend,
              llvm_module := \<not> jit_created no_jit_backend\<rparr>
            = engine_321\<lparr>results := rs\<rparr>"
    by (simp add: engine_321_def no_jit_backend_def)
  show ?thesis
    using where_clause_is_all_or_nothing [OF t321_where_tokens t321_where_parse g l b]
      where_clause_is_all_or_nothing [OF t321_bool_tokens(1) t321_bool_parse(1) g l b]
      where_clause_is_all_or_nothing [OF t321_bool_tokens(2) t321_bool_parse(2) g l b]
    by (simp add: e)
qed

text \<open>
  The claim as the specification words it fails, in an engine without a JIT, on
  \<^verbatim>\<open>SELECT * FROM t WHERE 1;\<close>, which returns every row and records no error where the
  claim has a TypeMismatch error, and on \<^verbatim>\<open>SELECT * FROM t WHERE c = 1;\<close>, which returns
  the rows (3) and (2) as well.
\<close>

theorem where_clause_counterexample:
  "map_sum id (\<lambda>(rs, eng). (rs, last_error eng))
     (execute_all no_jit_backend no_stod new_QueryEngine
        [''CREATE TABLE t (c INTEGER)'', ''INSERT INTO t VALUES (3),(1),(2);'',
         ''SELECT * FROM t WHERE 1;''])
   = Inr ([[IntV 3], [IntV 1], [IntV 2]], [])
   \<and> map_sum id (\<lambda>(rs, eng). (rs, last_error eng))
     (execute_all no_jit_backend no_stod new_QueryEngine
        [''CREATE TABLE t (c INTEGER)'', ''INSERT INTO t VALUES (3),(1),(2);'',
         ''SELECT * FROM t WHERE c = 1;''])
   = Inr ([[IntV 3], [IntV 1], [IntV 2]], [])"
  by code_simp

subsection \<open>C4: an INSERT that fails\<close>

text \<open>
  Claim C4, as the code has it. A statement that fails with an exception while it is
  parsed changes nothing but the last error. \<^verbatim>\<open>visit(InsertStatement&)\<close> inserts the value
  lists one after the other into the table itself, and nothing is undone when a later
  one throws: after an INSERT that parses, finds its table and fails with an error, the
  table holds its old rows followed by the rows of the value lists that come before the
  first one the table does not accept; their number is smaller than the number of value
  lists unless it is an LLVM step that failed.
\<close>

theorem failing_insert_keeps_earlier_rows:
  assumes "tokenize (new_Lexer sql) \<noteq> []"
  shows "(parseStatement sd (tokenize (new_Lexer sql)) 0 = Inl (Exception m)
            \<longrightarrow> execute be sd eng sql = Inr ([], eng\<lparr>last_error := c_str m\<rparr>))
     \<and> (parseStatement sd (tokenize (new_Lexer sql)) 0 = Inr (Insert node, cur)
          \<and> getTable (database eng) (ins_table_name node) = Some t
          \<and> execute be sd eng sql = Inr (rs, eng') \<and> last_error eng' \<noteq> []
        \<longrightarrow> (\<exists>new. getTable (database eng') (ins_table_name node)
                       = Some (t\<lparr>rows := rows t @ new\<rparr>)
                \<and> map (map LiteralExpression) new
                       = takeWhile (row_accepted t) (ins_values node)
                \<and> (\<not> verifyModule_fails be \<and> (jit_created be \<longrightarrow> \<not> addIRModule_fails be)
                     \<longrightarrow> length new < length (ins_values node))))"
proof (intro conjI impI)
  assume "parseStatement sd (tokenize (new_Lexer sql)) 0 = Inl (Exception m)"
  then show "execute be sd eng sql = Inr ([], eng\<lparr>last_error := c_str m\<rparr>)"
    by (rule execute_parse_error [OF assms])
next
  assume a: "parseStatement sd (tokenize (new_Lexer sql)) 0 = Inr (Insert node, cur)
          \<and> getTable (database eng) (ins_table_name node) = Some t
          \<and> execute be sd eng sql = Inr (rs, eng') \<and> last_error eng' \<noteq> []"
  then have p: "parseStatement sd (tokenize (new_Lexer sql)) 0 = Inr (Insert node, cur)"
    and g: "getTable (database eng) (ins_table_name node) = Some t"
    and e: "execute be sd eng sql = Inr (rs, eng')" and le: "last_error eng' \<noteq> []"
    by simp_all
  obtain t' r where iv: "insert_value_lists (ins_values node) t = (t', r)"
    by (cases "insert_value_lists (ins_values node) t")
  from insert_value_lists_rows [OF iv] obtain new where
    k: "t' = t\<lparr>rows := rows t @ new\<rparr>"
    "map (map LiteralExpression) new = takeWhile (row_accepted t) (ins_values node)"
    "(r = None) = (length new = length (ins_values node))"
    by blast
  have "length (map (map LiteralExpression) new)
          \<le> length (ins_values node)"
    unfolding k(2) by (rule length_takeWhile_le)
  then have len: "length new \<le> length (ins_values node)" by simp
  have db: "getTable (database eng') (ins_table_name node) = Some t'"
    and ok: "\<not> verifyModule_fails be \<and> (jit_created be \<longrightarrow> \<not> addIRModule_fails be)
               \<longrightarrow> r \<noteq> None"
    using g e le iv
    by (auto simp: execute_parsed [OF assms p] generateCode_def visit_InsertStatement_def
          compileAndExecute_def getTable_def Let_def
          split: sum.splits prod.splits failure.splits option.splits if_splits)
  show "\<exists>new. getTable (database eng') (ins_table_name node)
                       = Some (t\<lparr>rows := rows t @ new\<rparr>)
                \<and> map (map LiteralExpression) new
                       = takeWhile (row_accepted t) (ins_values node)
                \<and> (\<not> verifyModule_fails be \<and> (jit_created be \<longrightarrow> \<not> addIRModule_fails be)
                     \<longrightarrow> length new < length (ins_values node))"
    using k len db ok by (intro exI [of _ new]) auto
qed

lemma two_rows_tokens:
  "tokenize (new_Lexer ''INSERT INTO t VALUES (1),('x');'') \<noteq> []"
  "tokenize (new_Lexer ''INSERT INTO t VALUES (1),(9223372036854775808);'') \<noteq> []"
  by code_simp+

lemma two_rows_parse:
  "parseStatement no_stod (tokenize (new_Lexer ''INSERT INTO t VALUES (1),('x');'')) 0
     = Inr (Insert \<lparr>ins_table_name = ''t'', ins_columns = [],
                    ins_values = [[LiteralExpression (IntV 1)],
                                  [LiteralExpression (TextV ''x'')]]\<rparr>, 11)"
  "parseStatement no_stod
     (tokenize (new_Lexer ''INSERT INTO t VALUES (1),(9223372036854775808);'')) 0
     = Inl (Exception ''stoll'')"
  by code_simp+

lemma two_rows_outcome:
  "\<not> isl (execute no_jit_backend no_stod engine_c ''INSERT INTO t VALUES (1),('x');'')"
  "last_error (snd (projr (execute no_jit_backend no_stod engine_c
                             ''INSERT INTO t VALUES (1),('x');''))) = ''Row validation failed''"
  by code_simp+

lemma two_rows_accepted:
  "takeWhile (row_accepted
      \<lparr>tbl_name = ''t'',
            schema = addColumn empty_Schema
                       \<lparr>col_name = ''c'', col_type = INTEGER, nullable = True,
                        primary_key = False\<rparr>,
            rows = []\<rparr>)
      [[LiteralExpression (IntV 1)], [LiteralExpression (TextV ''x'')]]
    = [[LiteralExpression (IntV 1)]]"
  by code_simp

theorem failing_insert_keeps_earlier_rows_witness:
  "execute no_jit_backend no_stod engine_c ''INSERT INTO t VALUES (1),(9223372036854775808);''
     = Inr ([], engine_c\<lparr>last_error := ''stoll''\<rparr>)
   \<and> (\<exists>rs eng' t'. execute no_jit_backend no_stod engine_c ''INSERT INTO t VALUES (1),('x');''
                = Inr (rs, eng')
     \<and> last_error eng' = ''Row validation failed''
     \<and> getTable (database eng') ''t'' = Some t' \<and> rows t' = [[IntV 1]])"
proof (rule conjI)
  have c: "c_str ''stoll'' = ''stoll''" by (simp add: c_str_def)
  show "execute no_jit_backend no_stod engine_c
          ''INSERT INTO t VALUES (1),(9223372036854775808);''
     = Inr ([], engine_c\<lparr>last_error := ''stoll''\<rparr>)"
    by (rule mp [OF conjunct1 [OF failing_insert_keeps_earlier_rows [OF two_rows_tokens(2)]]
                  two_rows_parse(2), unfolded c])
next
  let ?sql = "''INSERT INTO t VALUES (1),('x');''"
  let ?t = "\<lparr>tbl_name = ''t'',
            schema = addColumn empty_Schema
                       \<lparr>col_name = ''c'', col_type = INTEGER, nullable = True,
                        primary_key = False\<rparr>,
            rows = []\<rparr>"
  let ?node = "\<lparr>ins_table_name = ''t'', ins_columns = [],
                    ins_values = [[LiteralExpression (IntV 1)],
                                  [LiteralExpression (TextV ''x'')]]\<rparr>"
  obtain rs eng' where e: "execute no_jit_backend no_stod engine_c ?sql = Inr (rs, eng')"
    using two_rows_outcome(1) by (cases "execute no_jit_backend no_stod engine_c ?sql") auto
  have le: "last_error eng' = ''Row validation failed''"
    using two_rows_outcome(2) by (simp add: e)
  then have ne: "last_error eng' \<noteq> []" by simp
  have g: "getTable (database engine_c) (ins_table_name ?node) = Some ?t"
    by (simp add: engine_c_def getTable_def)
  from conjunct2 [OF failing_insert_keeps_earlier_rows [OF two_rows_tokens(1)],
                  of no_stod ?node 11 engine_c ?t no_jit_backend rs eng']
    two_rows_parse(1) g e ne
  obtain new where
    k: "getTable (database eng') ''t'' = Some (?t\<lparr>rows := rows ?t @ new\<rparr>)"
      "map (map LiteralExpression) new
         = takeWhile (row_accepted ?t) (ins_values ?node)"
    by auto
  have "map (map LiteralExpression) new = [[LiteralExpression (IntV 1)]]"
    using k(2) two_rows_accepted by simp
  then have "new = [[IntV 1]]" by (auto simp: map_eq_Cons_conv)
  then show "\<exists>rs eng' t'. execute no_jit_backend no_stod engine_c ?sql = Inr (rs, eng')
     \<and> last_error eng' = ''Row validation failed''
     \<and> getTable (database eng') ''t'' = Some t' \<and> rows t' = [[IntV 1]]"
    using e le k(1) by simp
qed

text \<open>
  The claim as the specification words it fails, in an engine without a JIT, on
  \<^verbatim>\<open>INSERT INTO t VALUES (1),('x');\<close> into an empty table with one INTEGER column: the
  statement fails with \<^verbatim>\<open>Row validation failed\<close>, and the table, which had no row, holds
  the row (1) afterwards.
\<close>

theorem insert_atomicity_counterexample:
  "map_sum id (\<lambda>(rs, eng). (rs, last_error eng,
                   map_option rows (getTable (database eng) ''t'')))
     (execute_all no_jit_backend no_stod new_QueryEngine
        [''CREATE TABLE t (c INTEGER)'', ''INSERT INTO t VALUES (1),('x');''])
   = Inr ([], ''Row validation failed'', Some [[IntV 1]])
   \<and> map_sum id (\<lambda>(rs, eng). map_option rows (getTable (database eng) ''t''))
     (execute_all no_jit_backend no_stod new_QueryEngine
        [''CREATE TABLE t (c INTEGER)''])
   = Inr (Some [])"
  by code_simp

subsection \<open>C5: the column list of an INSERT\<close>

text \<open>
  Claim C5, as the code has it. The column list of an INSERT is parsed and stored in the
  node, and \<^verbatim>\<open>visit(InsertStatement&)\<close> never reads it: an INSERT statement that parses
  does what an INSERT statement does whose parse differs only in the column list. When
  the table exists and the call succeeds, the rows appended are the literal values of
  each value list, in the order in which they are written.
\<close>

theorem insert_ignores_column_list:
  assumes "tokenize (new_Lexer sql) \<noteq> []"
    and "parseStatement sd (tokenize (new_Lexer sql)) 0 = Inr (Insert node, cur)"
    and "tokenize (new_Lexer sql') \<noteq> []"
    and "parseStatement sd (tokenize (new_Lexer sql')) 0
           = Inr (Insert (node\<lparr>ins_columns := cols\<rparr>), cur')"
  shows "execute be sd eng sql' = execute be sd eng sql
     \<and> (getTable (database eng) (ins_table_name node) = Some t
          \<and> execute be sd eng sql' = Inr (rs, eng') \<and> last_error eng' = []
        \<longrightarrow> (\<exists>new. getTable (database eng') (ins_table_name node)
                       = Some (t\<lparr>rows := rows t @ new\<rparr>)
                \<and> map (map LiteralExpression) new = ins_values node))"
proof (intro conjI impI)
  show same: "execute be sd eng sql' = execute be sd eng sql"
    by (simp add: execute_parsed [OF assms(1,2)] execute_parsed [OF assms(3,4)]
          generateCode_def visit_InsertStatement_columns)
  assume a: "getTable (database eng) (ins_table_name node) = Some t
          \<and> execute be sd eng sql' = Inr (rs, eng') \<and> last_error eng' = []"
  then have g: "getTable (database eng) (ins_table_name node) = Some t"
    and e: "execute be sd eng sql = Inr (rs, eng')" and le: "last_error eng' = []"
    unfolding same by simp_all
  obtain t' r where iv: "insert_value_lists (ins_values node) t = (t', r)"
    by (cases "insert_value_lists (ins_values node) t")
  from insert_value_lists_rows [OF iv] obtain new where
    k: "t' = t\<lparr>rows := rows t @ new\<rparr>"
    "map (map LiteralExpression) new = takeWhile (row_accepted t) (ins_values node)"
    "(r = None) = (length new = length (ins_values node))"
    by blast
  have m: "\<And>f. r = Some f \<Longrightarrow> \<exists>m. f = Exception m \<and> c_str m \<noteq> []"
    using insert_value_lists_c_str iv by blast
  have db: "getTable (database eng') (ins_table_name node) = Some t'" and ok: "r = None"
    using g e le iv m
    by (auto simp: execute_parsed [OF assms(1,2)] generateCode_def visit_InsertStatement_def
          compileAndExecute_def getTable_def Let_def
          split: sum.splits prod.splits failure.splits option.splits if_splits)
  have "length (takeWhile (row_accepted t) (ins_values node)) = length (ins_values node)"
    using k(2,3) ok by (metis length_map)
  then have "takeWhile (row_accepted t) (ins_values node) = ins_values node"
    by (rule takeWhile_full)
  then show "\<exists>new. getTable (database eng') (ins_table_name node)
                       = Some (t\<lparr>rows := rows t @ new\<rparr>)
                \<and> map (map LiteralExpression) new = ins_values node"
    using db k by auto
qed

lemma ba_tokens:
  "tokenize (new_Lexer ''INSERT INTO t VALUES (1, 2);'') \<noteq> []"
  "tokenize (new_Lexer ''INSERT INTO t (b, a) VALUES (1, 2);'') \<noteq> []"
  by code_simp+

lemma ba_parse:
  "parseStatement no_stod (tokenize (new_Lexer ''INSERT INTO t VALUES (1, 2);'')) 0
     = Inr (Insert \<lparr>ins_table_name = ''t'', ins_columns = [],
                    ins_values = [[LiteralExpression (IntV 1), LiteralExpression (IntV 2)]]\<rparr>,
            9)"
  "parseStatement no_stod (tokenize (new_Lexer ''INSERT INTO t (b, a) VALUES (1, 2);'')) 0
     = Inr (Insert (\<lparr>ins_table_name = ''t'', ins_columns = [],
                    ins_values = [[LiteralExpression (IntV 1), LiteralExpression (IntV 2)]]\<rparr>
                      \<lparr>ins_columns := [''b'', ''a'']\<rparr>), 14)"
  by code_simp+

lemma ba_outcome:
  "\<not> isl (execute no_jit_backend no_stod engine_ab0 ''INSERT INTO t (b, a) VALUES (1, 2);'')"
  "last_error (snd (projr (execute no_jit_backend no_stod engine_ab0
                             ''INSERT INTO t (b, a) VALUES (1, 2);''))) = []"
  by code_simp+

theorem insert_ignores_column_list_witness:
  "execute no_jit_backend no_stod engine_ab0 ''INSERT INTO t (b, a) VALUES (1, 2);''
     = execute no_jit_backend no_stod engine_ab0 ''INSERT INTO t VALUES (1, 2);''
   \<and> (\<exists>rs eng' t'. execute no_jit_backend no_stod engine_ab0
                       ''INSERT INTO t (b, a) VALUES (1, 2);'' = Inr (rs, eng')
         \<and> last_error eng' = []
         \<and> getTable (database eng') ''t'' = Some t' \<and> rows t' = [[IntV 1, IntV 2]])"
proof -
  let ?sql = "''INSERT INTO t (b, a) VALUES (1, 2);''"
  let ?t = "\<lparr>tbl_name = ''t'',
            schema = addColumn
                       (addColumn empty_Schema
                          \<lparr>col_name = ''a'', col_type = INTEGER, nullable = True,
                           primary_key = False\<rparr>)
                       \<lparr>col_name = ''b'', col_type = INTEGER, nullable = True,
                        primary_key = False\<rparr>,
            rows = []\<rparr>"
  let ?node = "\<lparr>ins_table_name = ''t'', ins_columns = [],
                    ins_values = [[LiteralExpression (IntV 1), LiteralExpression (IntV 2)]]\<rparr>"
  obtain rs eng' where e: "execute no_jit_backend no_stod engine_ab0 ?sql = Inr (rs, eng')"
    using ba_outcome(1) by (cases "execute no_jit_backend no_stod engine_ab0 ?sql") auto
  have le: "last_error eng' = []"
    using ba_outcome(2) by (simp add: e)
  have g: "getTable (database engine_ab0) (ins_table_name ?node) = Some ?t"
    by (simp add: engine_ab0_def getTable_def)
  note th = insert_ignores_column_list [OF ba_tokens(1) ba_parse(1) ba_tokens(2) ba_parse(2),
              of no_jit_backend engine_ab0 ?t rs eng']
  have same: "execute no_jit_backend no_stod engine_ab0 ?sql
          = execute no_jit_backend no_stod engine_ab0 ''INSERT INTO t VALUES (1, 2);''"
    by (rule conjunct1 [OF th])
  from conjunct2 [OF th] g e le obtain new where
    k: "getTable (database eng') ''t'' = Some (?t\<lparr>rows := rows ?t @ new\<rparr>)"
      "map (map LiteralExpression) new
         = [[LiteralExpression (IntV 1), LiteralExpression (IntV 2)]]"
    by auto
  from k(2) have "new = [[IntV 1, IntV 2]]" by (auto simp: map_eq_Cons_conv)
  then show ?thesis using e le k(1) same by simp
qed

text \<open>
  The claim as the specification words it fails, in an engine without a JIT, on
  \<^verbatim>\<open>INSERT INTO t (b, a) VALUES (1, 2);\<close> into a table with the columns \<^verbatim>\<open>a\<close>, \<^verbatim>\<open>b\<close>: the
  row stored is (1, 2), where the column list asks for (2, 1).
\<close>

theorem insert_column_list_counterexample:
  "map_sum id (\<lambda>(rs, eng). (last_error eng, map_option rows (getTable (database eng) ''t'')))
     (execute_all no_jit_backend no_stod new_QueryEngine
        [''CREATE TABLE t (a INTEGER, b INTEGER)'', ''INSERT INTO t (b, a) VALUES (1, 2);''])
   = Inr ([], Some [[IntV 1, IntV 2]])
   \<and> [[IntV 1, IntV 2]] \<noteq> [[IntV 2, IntV 1]]"
  by code_simp

subsection \<open>C8: column names of a schema\<close>

text \<open>
  Claim C8, as the code has it. \<^verbatim>\<open>Schema::addColumn\<close> appends the column and overwrites the
  index entry of its name; neither it nor the parser nor \<^verbatim>\<open>createTable\<close> rejects a name
  that is already there. After a successful CREATE TABLE the table has no rows and its
  columns are the column definitions of the statement in their order, duplicates
  included; the name-to-index mapping sends a name to the position of the last column of
  that name, and names no column has to nothing.
\<close>

theorem created_schema_keeps_duplicate_names:
  assumes "tokenize (new_Lexer sql) \<noteq> []"
    and "parseStatement sd (tokenize (new_Lexer sql)) 0 = Inr (CreateTable node, cur)"
    and "execute be sd eng sql = Inr (rs, eng')"
    and "last_error eng' = []"
  shows "\<exists>t. getTable (database eng') (crt_table_name node) = Some t
           \<and> rows t = []
           \<and> columns (schema t) = crt_columns node
           \<and> (\<forall>n i. (column_index (schema t) n = Some i)
                 = (i < length (crt_columns node) \<and> col_name (crt_columns node ! i) = n
                      \<and> (\<forall>j. i < j \<and> j < length (crt_columns node)
                               \<longrightarrow> col_name (crt_columns node ! j) \<noteq> n)))"
proof -
  let ?s = "foldl addColumn empty_Schema (crt_columns node)"
  have "getTable (database eng') (crt_table_name node)
          = Some (new_Table (crt_table_name node) ?s)"
    using assms(3,4)
    by (auto simp: execute_parsed [OF assms(1,2)] generateCode_def
          visit_CreateTableStatement_def createTable_def
          compileAndExecute_def getTable_def Let_def c_str_nonempty
          split: sum.splits prod.splits failure.splits option.splits if_splits)
  moreover have "columns ?s = crt_columns node"
    by (simp add: foldl_addColumn_columns empty_Schema_def)
  ultimately show ?thesis
    by (intro exI [of _ "new_Table (crt_table_name node) ?s"])
       (simp add: new_Table_def foldl_addColumn_index)
qed

lemma aa_tokens:
  "tokenize (new_Lexer ''CREATE TABLE t (a INTEGER, a TEXT)'') \<noteq> []"
  by code_simp

lemma aa_parse:
  "parseStatement no_stod (tokenize (new_Lexer ''CREATE TABLE t (a INTEGER, a TEXT)'')) 0
     = Inr (CreateTable \<lparr>crt_table_name = ''t'',
              crt_columns = [\<lparr>col_name = ''a'', col_type = INTEGER, nullable = True,
                              primary_key = False\<rparr>,
                             \<lparr>col_name = ''a'', col_type = TEXT, nullable = True,
                              primary_key = False\<rparr>]\<rparr>, 10)"
  by code_simp

lemma aa_outcome:
  "\<not> isl (execute example_backend no_stod new_QueryEngine ''CREATE TABLE t (a INTEGER, a TEXT)'')"
  "last_error (snd (projr (execute example_backend no_stod new_QueryEngine
                             ''CREATE TABLE t (a INTEGER, a TEXT)''))) = []"
  by code_simp+

theorem created_schema_keeps_duplicate_names_witness:
  "\<exists>rs eng' t. execute example_backend no_stod new_QueryEngine
                  ''CREATE TABLE t (a INTEGER, a TEXT)'' = Inr (rs, eng')
     \<and> last_error eng' = []
     \<and> getTable (database eng') ''t'' = Some t
     \<and> map col_name (columns (schema t)) = [''a'', ''a'']
     \<and> column_index (schema t) ''a'' = Some 1"
proof -
  let ?sql = "''CREATE TABLE t (a INTEGER, a TEXT)''"
  let ?cols = "[\<lparr>col_name = ''a'', col_type = INTEGER, nullable = True,
                              primary_key = False\<rparr>,
                             \<lparr>col_name = ''a'', col_type = TEXT, nullable = True,
                              primary_key = False\<rparr>]"
  let ?node = "\<lparr>crt_table_name = ''t'', crt_columns = ?cols\<rparr>"
  obtain rs eng' where e: "execute example_backend no_stod new_QueryEngine ?sql = Inr (rs, eng')"
    using aa_outcome(1) by (cases "execute example_backend no_stod new_QueryEngine ?sql") auto
  have le: "last_error eng' = []"
    using aa_outcome(2) by (simp add: e)
  from created_schema_keeps_duplicate_names [OF aa_tokens aa_parse e le]
  obtain t where
    k: "getTable (database eng') ''t'' = Some t" "columns (schema t) = ?cols"
      "\<And>n i. (column_index (schema t) n = Some i)
                 = (i < length ?cols \<and> col_name (?cols ! i) = n
                      \<and> (\<forall>j. i < j \<and> j < length ?cols \<longrightarrow> col_name (?cols ! j) \<noteq> n))"
    by auto
  have "column_index (schema t) ''a'' = Some 1"
    unfolding k(3) by (auto simp: less_Suc_eq nth_Cons')
  then show ?thesis using e le k(1,2) by simp
qed

text \<open>
  The claim as the specification words it fails on \<^verbatim>\<open>CREATE TABLE t (a INTEGER, a TEXT)\<close>:
  the statement succeeds, and the schema has two columns named \<^verbatim>\<open>a\<close>.
\<close>

theorem duplicate_column_counterexample:
  "map_sum id (\<lambda>(rs, eng). (last_error eng,
       map col_name (columns (schema (the (getTable (database eng) ''t'')))),
       column_index (schema (the (getTable (database eng) ''t''))) ''a''))
     (execute example_backend no_stod new_QueryEngine ''CREATE TABLE t (a INTEGER, a TEXT)'')
   = Inr ([], [''a'', ''a''], Some 1)
   \<and> \<not> distinct [''a'', ''a'']"
  by code_simp

subsection \<open>C10: what follows the statement\<close>

text \<open>
  Claim C10, as the code has it. \<^verbatim>\<open>execute\<close> parses one statement and never checks that
  the input ends after it. When the parser, on the tokens of an input, returns a statement
  or throws without reading past the end of the token vector, then for every input whose
  tokens are those tokens followed by more, the parser has the same result, and the call
  has the same result and the same effect: the tokens that follow are never examined,
  and they are no error.
\<close>

theorem tokens_after_the_parse_are_ignored:
  assumes "tokenize (new_Lexer sql') = tokenize (new_Lexer sql) @ extra"
    and "tokenize (new_Lexer sql) \<noteq> []"
    and "parseStatement sd (tokenize (new_Lexer sql)) 0 \<noteq> Inl UndefinedBehaviour"
  shows "parseStatement sd (tokenize (new_Lexer sql')) 0
           = parseStatement sd (tokenize (new_Lexer sql)) 0
     \<and> execute be sd eng sql' = execute be sd eng sql"
proof -
  have p: "parseStatement sd (tokenize (new_Lexer sql')) 0
           = parseStatement sd (tokenize (new_Lexer sql)) 0"
    using unaffected_parseStatement [of sd "tokenize (new_Lexer sql)" extra 0] assms(3)
    by (simp add: unaffected_def assms(1))
  have n: "tokenize (new_Lexer sql') \<noteq> []" using assms(1,2) by simp
  show ?thesis
    using p n assms(2) by (simp add: execute_def execute_try_def)
qed

lemma drop_after_tokens:
  "tokenize (new_Lexer ''SELECT * FROM t; DROP TABLE t'')
     = tokenize (new_Lexer ''SELECT * FROM t;'')
       @ drop 5 (tokenize (new_Lexer ''SELECT * FROM t; DROP TABLE t''))"
  "map tok_type (drop 5 (tokenize (new_Lexer ''SELECT * FROM t; DROP TABLE t'')))
     = [DROP, TABLE, IDENTIFIER]"
  by code_simp+

lemma drop_after_rows:
  "map_sum id (\<lambda>(rs, eng). (rs, last_error eng, map_option rows (getTable (database eng) ''t'')))
     (execute no_jit_backend no_stod engine_321 ''SELECT * FROM t;'')
     = Inr ([[IntV 3], [IntV 1], [IntV 2]], [], Some [[IntV 3], [IntV 1], [IntV 2]])"
  by code_simp

theorem tokens_after_the_parse_are_ignored_witness:
  "execute no_jit_backend no_stod engine_321 ''SELECT * FROM t; DROP TABLE t''
     = execute no_jit_backend no_stod engine_321 ''SELECT * FROM t;''
   \<and> map tok_type (drop 5 (tokenize (new_Lexer ''SELECT * FROM t; DROP TABLE t'')))
     = [DROP, TABLE, IDENTIFIER]
   \<and> map_sum id (\<lambda>(rs, eng). (rs, last_error eng, map_option rows (getTable (database eng) ''t'')))
     (execute no_jit_backend no_stod engine_321 ''SELECT * FROM t; DROP TABLE t'')
     = Inr ([[IntV 3], [IntV 1], [IntV 2]], [], Some [[IntV 3], [IntV 1], [IntV 2]])"
proof -
  have t: "tokenize (new_Lexer ''SELECT * FROM t;'') \<noteq> []" by code_simp
  have p: "parseStatement no_stod (tokenize (new_Lexer ''SELECT * FROM t;'')) 0
             \<noteq> Inl UndefinedBehaviour"
    by code_simp
  have e: "execute no_jit_backend no_stod engine_321 ''SELECT * FROM t; DROP TABLE t''
     = execute no_jit_backend no_stod engine_321 ''SELECT * FROM t;''"
    by (rule conjunct2 [OF tokens_after_the_parse_are_ignored [OF drop_after_tokens(1) t p]])
  show ?thesis
    using e drop_after_tokens(2) drop_after_rows by simp
qed

text \<open>
  The claim as the specification words it fails where the tokens that follow continue the
  statement, since the parser reads the token after a value list, a table name or a
  clause to decide whether the statement goes on. In an engine without a JIT,
  \<^verbatim>\<open>INSERT INTO t VALUES (1) ;\<close> inserts a row, and \<^verbatim>\<open>INSERT INTO t VALUES (1) , x ;\<close> is
  a parse error that quotes the \<^verbatim>\<open>x\<close> and inserts nothing; \<^verbatim>\<open>SELECT * FROM t ;\<close> returns the
  row, and \<^verbatim>\<open>SELECT * FROM t LIMIT x ;\<close> is a parse error.
\<close>

theorem trailing_tokens_counterexample:
  "map_sum id (\<lambda>(rs, eng). (last_error eng, map_option rows (getTable (database eng) ''t'')))
     (execute_all no_jit_backend no_stod new_QueryEngine
        [''CREATE TABLE t (c INTEGER)'', ''INSERT INTO t VALUES (1) ;''])
   = Inr ([], Some [[IntV 1]])
   \<and> map_sum id (\<lambda>(rs, eng). (last_error eng, map_option rows (getTable (database eng) ''t'')))
     (execute_all no_jit_backend no_stod new_QueryEngine
        [''CREATE TABLE t (c INTEGER)'', ''INSERT INTO t VALUES (1) , x ;''])
   = Inr (''Parse error at token 8: Expected '(' before values (got 'x')'', Some [])
   \<and> map_sum id (\<lambda>(rs, eng). (rs, last_error eng))
     (execute_all no_jit_backend no_stod new_QueryEngine
        [''CREATE TABLE t (c INTEGER)'', ''INSERT INTO t VALUES (1) ;'',
         ''SELECT * FROM t ;''])
   = Inr ([[IntV 1]], [])
   \<and> map_sum id (\<lambda>(rs, eng). (rs, last_error eng))
     (execute_all no_jit_backend no_stod new_QueryEngine
        [''CREATE TABLE t (c INTEGER)'', ''INSERT INTO t VALUES (1) ;'',
         ''SELECT * FROM t LIMIT x ;''])
   = Inr ([], ''Parse error at token 5: Expected number after LIMIT (got 'x')'')"
  by code_simp

end
